theory Spec2Isabelle
  imports Main "HOL-Library.Word"
begin

unbundle bit_operations_syntax

section \<open>Machine types and call outcomes\<close>

text \<open>
  The programs are C on Linux (LP64): \<open>size_t\<close> is an unsigned 64-bit word, \<open>int\<close> a
  signed 32-bit word, the wire fields are \<open>uint32_t\<close>. Return codes are small
  constants and are kept as \<open>int\<close>.

  A call of a queue operation either returns, or waits for another thread (a mutex
  held elsewhere, or \<open>pthread_cond_wait\<close> on a predicate that only another thread
  can change), or reads the buffer outside its allocation, which C leaves undefined.
  The three outcomes are kept apart.
\<close>

type_synonym size_t = "64 word"
type_synonym uint32_t = "32 word"
type_synonym byte = "8 word"

datatype 'a outcome = Returns 'a | Blocks | Undefined

section \<open>Module message queue (CompanionComputer/src/com_utils.c)\<close>

text \<open>
  \<open>ModuleMessageQueue_T\<close>: the buffer is an array of message pointers, \<open>NULL\<close> being
  \<open>None\<close>; the buffer pointer itself is \<open>None\<close> while nothing is allocated. The mutex is
  the flag \<open>lock\<close>: \<open>True\<close> while another thread holds it. The condition variable has
  no state of its own: a broadcast changes nothing a single caller can read.
  The fields \<open>size\<close> and \<open>back\<close> carry the suffix \<open>_q\<close>, both names being taken
  in Isabelle.
\<close>

record 'm ModuleMessageQueue =
  lock :: bool
  size_q :: size_t
  front :: size_t
  back_q :: size_t
  messages :: "'m option list option"

text \<open>The results of the allocation and of the five pthread calls of the initialiser.\<close>

record InitEnv =
  calloc_ok :: bool
  mutexattr_init_rc :: int
  mutexattr_settype_rc :: int
  mutex_init_rc :: int
  condattr_init_rc :: int
  cond_init_rc :: int

text \<open>The environment in which the allocation and every pthread call succeed.\<close>

definition resources_available :: "InitEnv \<Rightarrow> bool" where
  "resources_available env =
     (calloc_ok env \<and> mutexattr_init_rc env = 0 \<and> mutexattr_settype_rc env = 0 \<and>
      mutex_init_rc env = 0 \<and> condattr_init_rc env = 0 \<and> cond_init_rc env = 0)"

definition MOD_MSGQ_NOBLOCK :: int where
  "MOD_MSGQ_NOBLOCK = 1"

definition MOD_MSGQ_BLOCK :: int where
  "MOD_MSGQ_BLOCK = 0"

definition initModuleMessageQueue ::
  "'m ModuleMessageQueue option \<Rightarrow> size_t \<Rightarrow> InitEnv \<Rightarrow> int \<times> 'm ModuleMessageQueue option" where
  "initModuleMessageQueue messageQueue sz env =
     (case messageQueue of
        None \<Rightarrow> (- 1, None)
      | Some q \<Rightarrow>
          if sz \<noteq> 0 \<and> sz AND (sz - 1) = 0 then
            if calloc_ok env then
              let q1 = q\<lparr>messages := Some (replicate (unat sz) None),
                         size_q := sz, front := 0, back_q := 0\<rparr>
              in if mutexattr_init_rc env \<noteq> 0 then (- 1, Some q1)
                 else if mutexattr_settype_rc env \<noteq> 0 then (- 1, Some q1)
                 else if mutex_init_rc env \<noteq> 0 then (- 1, Some q1)
                 else if condattr_init_rc env \<noteq> 0 then (- 1, Some (q1\<lparr>lock := False\<rparr>))
                 else if cond_init_rc env \<noteq> 0 then (- 1, Some (q1\<lparr>lock := False\<rparr>))
                 else (0, Some (q1\<lparr>lock := False\<rparr>))
            else (- 1, Some (q\<lparr>messages := None\<rparr>))
          else (- 1, Some q))"

text \<open>
  \<open>messageQueue->messages[i]\<close>: \<open>None\<close> when the access is outside the allocated
  buffer (or the buffer pointer is \<open>NULL\<close>), otherwise the pointer stored there.
\<close>

definition slot :: "'m ModuleMessageQueue \<Rightarrow> size_t \<Rightarrow> 'm option option" where
  "slot q i =
     (case messages q of
        None \<Rightarrow> None
      | Some buf \<Rightarrow> if unat i < length buf then Some (buf ! unat i) else None)"

definition set_slot :: "'m ModuleMessageQueue \<Rightarrow> size_t \<Rightarrow> 'm option \<Rightarrow> 'm ModuleMessageQueue" where
  "set_slot q i v = q\<lparr>messages := map_option (\<lambda>buf. buf[unat i := v]) (messages q)\<rparr>"

text \<open>The index advance \<open>(i + 1) & (size - 1)\<close>.\<close>

definition next_index :: "'m ModuleMessageQueue \<Rightarrow> size_t \<Rightarrow> size_t" where
  "next_index q i = (i + 1) AND (size_q q - 1)"

text \<open>Lines 353-354 and 395-397: the store at \<open>front\<close> and the removal at \<open>back\<close>.\<close>

definition store_front :: "'m ModuleMessageQueue \<Rightarrow> 'm \<Rightarrow> 'm ModuleMessageQueue" where
  "store_front q m = (set_slot q (front q) (Some m))\<lparr>front := next_index q (front q)\<rparr>"

definition clear_back :: "'m ModuleMessageQueue \<Rightarrow> 'm ModuleMessageQueue" where
  "clear_back q = (set_slot q (back_q q) None)\<lparr>back_q := next_index q (back_q q)\<rparr>"

definition insertModuleMessage ::
  "'m ModuleMessageQueue option \<Rightarrow> 'm option \<Rightarrow> int \<Rightarrow>
     (int \<times> 'm ModuleMessageQueue option) outcome" where
  "insertModuleMessage messageQueue message noblock =
     (case (messageQueue, message) of
        (Some q, Some m) \<Rightarrow>
          if noblock \<noteq> 0 then
            (if lock q then Returns (- 2, Some q)
             else case slot q (front q) of
                    None \<Rightarrow> Undefined
                  | Some (Some occupant) \<Rightarrow> Returns (- 3, Some q)
                  | Some None \<Rightarrow> Returns (0, Some (store_front q m)))
          else
            (if lock q then Blocks
             else case slot q (front q) of
                    None \<Rightarrow> Undefined
                  | Some (Some occupant) \<Rightarrow> Blocks
                  | Some None \<Rightarrow> Returns (0, Some (store_front q m)))
      | _ \<Rightarrow> Returns (- 1, messageQueue))"

text \<open>
  The out-parameter \<open>ModuleMessage_T* *message\<close> is \<open>None\<close> for a \<open>NULL\<close> argument and
  \<open>Some cur\<close> for a pointer to a variable that holds \<open>cur\<close>; its new content is returned.
\<close>

definition removeModuleMessage ::
  "'m ModuleMessageQueue option \<Rightarrow> 'm option option \<Rightarrow> int \<Rightarrow>
     (int \<times> 'm ModuleMessageQueue option \<times> 'm option option) outcome" where
  "removeModuleMessage messageQueue message noblock =
     (case (messageQueue, message) of
        (Some q, Some cur) \<Rightarrow>
          if noblock \<noteq> 0 then
            (if lock q then Returns (- 2, Some q, Some cur)
             else case slot q (back_q q) of
                    None \<Rightarrow> Undefined
                  | Some None \<Rightarrow> Returns (- 3, Some q, Some cur)
                  | Some (Some m) \<Rightarrow> Returns (0, Some (clear_back q), Some (Some m)))
          else
            (if lock q then Blocks
             else case slot q (back_q q) of
                    None \<Rightarrow> Undefined
                  | Some None \<Rightarrow> Blocks
                  | Some (Some m) \<Rightarrow> Returns (0, Some (clear_back q), Some (Some m)))
      | _ \<Rightarrow> Returns (- 1, messageQueue, message))"

text \<open>
  The drain loop of \<open>deinitModuleMessageQueue\<close> (lines 296-301): while the slot at
  \<open>back\<close> is occupied, free the message, clear the slot and advance \<open>back\<close>. Every
  round empties one occupied slot, so the number of occupied slots is the measure.
\<close>

definition occupied :: "'m ModuleMessageQueue \<Rightarrow> nat" where
  "occupied q = (case messages q of None \<Rightarrow> 0 | Some buf \<Rightarrow> length (filter (\<lambda>s. s \<noteq> None) buf))"

function drain :: "'m ModuleMessageQueue \<Rightarrow> 'm ModuleMessageQueue outcome" where
  "drain q =
     (case slot q (back_q q) of
        None \<Rightarrow> Undefined
      | Some None \<Rightarrow> Returns q
      | Some (Some m) \<Rightarrow> drain (clear_back q))"
  by pat_completeness auto
termination
proof (relation "measure occupied")
  show "wf (measure occupied)"
    by simp
next
  fix q :: "'m ModuleMessageQueue" and x2 :: "'m option" and m :: 'm
  assume rd: "slot q (back_q q) = Some x2" and x2: "x2 = Some m"
  have less: "length (filter P (xs[i := v])) < length (filter P xs)"
    if "i < length xs" "P (xs ! i)" "\<not> P v" for P :: "'m option \<Rightarrow> bool" and xs i v
    using that
  proof (induction xs arbitrary: i)
    case Nil
    then show ?case by simp
  next
    case (Cons x xs)
    show ?case
    proof (cases i)
      case 0
      with Cons.prems show ?thesis by (simp add: less_Suc_eq_le)
    next
      case (Suc j)
      with Cons.prems have "length (filter P (xs[j := v])) < length (filter P xs)"
        by (intro Cons.IH) simp_all
      with Suc show ?thesis by simp
    qed
  qed
  from rd x2 obtain buf where buf: "messages q = Some buf" "unat (back_q q) < length buf"
    "buf ! unat (back_q q) = Some m"
    by (auto simp: slot_def split: option.splits if_splits)
  have "length (filter (\<lambda>s. s \<noteq> None) (buf[unat (back_q q) := None]))
        < length (filter (\<lambda>s. s \<noteq> None) buf)"
    by (rule less) (use buf in simp_all)
  with buf show "(clear_back q, q) \<in> measure occupied"
    by (simp add: occupied_def clear_back_def set_slot_def)
qed

text \<open>The results of the two destroy calls of the deinitialiser.\<close>

record DeinitEnv =
  mutex_destroy_rc :: int
  cond_destroy_rc :: int

definition deinitModuleMessageQueue ::
  "'m ModuleMessageQueue option \<Rightarrow> DeinitEnv \<Rightarrow> (int \<times> 'm ModuleMessageQueue option) outcome" where
  "deinitModuleMessageQueue messageQueue env =
     (case messageQueue of
        None \<Rightarrow> Returns (- 1, None)
      | Some q \<Rightarrow>
          (case drain q of
             Undefined \<Rightarrow> Undefined
           | Blocks \<Rightarrow> Blocks
           | Returns q1 \<Rightarrow>
               let q2 = q1\<lparr>messages := None, size_q := 0\<rparr>;
                   r1 = (if mutex_destroy_rc env \<noteq> 0 then - 1 else 0);
                   r2 = (if cond_destroy_rc env \<noteq> 0 then - 1 else r1)
               in Returns (r2, Some q2)))"

subsection \<open>Reading a queue: its messages in delivery order\<close>

text \<open>
  The queue keeps no count: a slot is occupied when its pointer is not \<open>NULL\<close>. Its
  messages in delivery order are the occupied slots met from \<open>back\<close> onwards, going
  round the buffer. A queue is well formed when its mutex is free, its size passed the
  initialiser's test, the buffer has that many slots, \<open>back\<close> is an index of the buffer,
  \<open>front\<close> lies just behind the last message, and every other slot is empty.
\<close>

definition queue_contents :: "'m ModuleMessageQueue \<Rightarrow> 'm list" where
  "queue_contents q =
     (case messages q of
        None \<Rightarrow> []
      | Some buf \<Rightarrow> map the (takeWhile (\<lambda>s. s \<noteq> None) (rotate (unat (back_q q)) buf)))"

definition wf_queue :: "'m ModuleMessageQueue \<Rightarrow> bool" where
  "wf_queue q =
     (case messages q of
        None \<Rightarrow> False
      | Some buf \<Rightarrow>
          \<not> lock q \<and> size_q q \<noteq> 0 \<and> size_q q AND (size_q q - 1) = 0 \<and>
          length buf = unat (size_q q) \<and> back_q q < size_q q \<and>
          unat (front q) = (unat (back_q q) + length (queue_contents q)) mod length buf \<and>
          list_all (\<lambda>s. s = None) (dropWhile (\<lambda>s. s \<noteq> None) (rotate (unat (back_q q)) buf)))"

text \<open>
  The same in relational form, for the proofs: \<open>represents q ms\<close> says that the well-formed
  queue \<open>q\<close> holds exactly the messages \<open>ms\<close>, oldest first.
\<close>

definition represents :: "'m ModuleMessageQueue \<Rightarrow> 'm list \<Rightarrow> bool" where
  "represents q ms =
     (\<exists>buf. messages q = Some buf \<and> \<not> lock q \<and>
        size_q q \<noteq> 0 \<and> size_q q AND (size_q q - 1) = 0 \<and>
        length buf = unat (size_q q) \<and> back_q q < size_q q \<and> length ms \<le> length buf \<and>
        unat (front q) = (unat (back_q q) + length ms) mod length buf \<and>
        rotate (unat (back_q q)) buf = map Some ms @ replicate (length buf - length ms) None)"

text \<open>The invariant of the indices alone: both lie inside the allocated buffer.\<close>

definition index_inv :: "'m ModuleMessageQueue \<Rightarrow> bool" where
  "index_inv q =
     (case messages q of
        None \<Rightarrow> False
      | Some buf \<Rightarrow> length buf = unat (size_q q) \<and> front q < size_q q \<and> back_q q < size_q q)"

subsection \<open>Sequences of queue operations\<close>

text \<open>
  A run of pushes and pops on one queue, each call complete before the next starts (the
  mutex serialises the calls of several threads into such a sequence). Every call leaves
  an observation: its return code and, for a pop, the pointer it handed out. A pop
  starts with its out-variable \<open>NULL\<close>, as the consumer threads do.
\<close>

datatype 'm queue_op = Push 'm int | Pop int

datatype 'm queue_obs = Pushed int | Popped int "'m option"

definition and_then ::
  "'o \<Rightarrow> ('o list \<times> 's) outcome \<Rightarrow> ('o list \<times> 's) outcome" where
  "and_then ob r =
     (case r of Returns (obs, s) \<Rightarrow> Returns (ob # obs, s) | Blocks \<Rightarrow> Blocks | Undefined \<Rightarrow> Undefined)"

fun run_ops ::
  "'m ModuleMessageQueue \<Rightarrow> 'm queue_op list \<Rightarrow> ('m queue_obs list \<times> 'm ModuleMessageQueue) outcome" where
  "run_ops q [] = Returns ([], q)"
| "run_ops q (Push m noblock # ops) =
     (case insertModuleMessage (Some q) (Some m) noblock of
        Returns (rc, Some q1) \<Rightarrow> and_then (Pushed rc) (run_ops q1 ops)
      | Returns (rc, None) \<Rightarrow> Undefined
      | Blocks \<Rightarrow> Blocks
      | Undefined \<Rightarrow> Undefined)"
| "run_ops q (Pop noblock # ops) =
     (case removeModuleMessage (Some q) (Some None) noblock of
        Returns (rc, Some q1, Some out) \<Rightarrow> and_then (Popped rc out) (run_ops q1 ops)
      | Returns (rc, Some q1, None) \<Rightarrow> Undefined
      | Returns (rc, None, out) \<Rightarrow> Undefined
      | Blocks \<Rightarrow> Blocks
      | Undefined \<Rightarrow> Undefined)"

text \<open>
  The reference the specification compares the queue with: a bounded first-in first-out
  list of capacity \<open>cap\<close>. A push appends when there is room, a pop takes the head; the
  non-blocking forms answer \<open>-3\<close> when they cannot proceed, the blocking forms wait.
\<close>

fun fifo_run ::
  "nat \<Rightarrow> 'm list \<Rightarrow> 'm queue_op list \<Rightarrow> ('m queue_obs list \<times> 'm list) outcome" where
  "fifo_run cap xs [] = Returns ([], xs)"
| "fifo_run cap xs (Push m noblock # ops) =
     (if length xs < cap then and_then (Pushed 0) (fifo_run cap (xs @ [m]) ops)
      else if noblock \<noteq> 0 then and_then (Pushed (- 3)) (fifo_run cap xs ops)
      else Blocks)"
| "fifo_run cap xs (Pop noblock # ops) =
     (case xs of
        x # rest \<Rightarrow> and_then (Popped 0 (Some x)) (fifo_run cap rest ops)
      | [] \<Rightarrow> if noblock \<noteq> 0 then and_then (Popped (- 3) None) (fifo_run cap xs ops)
              else Blocks)"

text \<open>A call with the non-blocking flag set.\<close>

fun nonblocking :: "'m queue_op \<Rightarrow> bool" where
  "nonblocking (Push m noblock) = (noblock \<noteq> 0)"
| "nonblocking (Pop noblock) = (noblock \<noteq> 0)"

text \<open>The messages a run accepted (pushes answered 0) and delivered (pops answered 0).\<close>

fun accepted :: "'m queue_op list \<Rightarrow> 'm queue_obs list \<Rightarrow> 'm list" where
  "accepted (Push m noblock # ops) (Pushed rc # obs) =
     (if rc = 0 then m # accepted ops obs else accepted ops obs)"
| "accepted (op # ops) (ob # obs) = accepted ops obs"
| "accepted ops obs = []"

fun delivered :: "'m queue_obs list \<Rightarrow> 'm list" where
  "delivered [] = []"
| "delivered (Popped rc (Some m) # obs) = (if rc = 0 then m # delivered obs else delivered obs)"
| "delivered (ob # obs) = delivered obs"

section \<open>Module messages (includes/com_utils.h)\<close>

text \<open>
  The enumerations \<open>ModuleName_T\<close> and \<open>ModuleMessageCode_T\<close> travel as \<open>uint32_t\<close>
  header fields and are cast back without a range check, so they are 32-bit words with
  named values. The union \<open>ModuleMessageData_T\<close> has two 32-bit members over the same
  storage: one word, read as coding format or as port.
\<close>

definition MOD_NAME_NETWORK :: uint32_t where
  "MOD_NAME_NETWORK = 1"

definition MOD_NAME_STREAM :: uint32_t where
  "MOD_NAME_STREAM = 2"

definition MOD_NAME_GCCOMMON :: uint32_t where
  "MOD_NAME_GCCOMMON = 3"

definition MOD_MSG_CODE_LOGIN :: uint32_t where
  "MOD_MSG_CODE_LOGIN = 1"

definition MOD_MSG_CODE_LOGIN_ACK :: uint32_t where
  "MOD_MSG_CODE_LOGIN_ACK = 2"

definition MOD_MSG_CODE_STREAM_REQ :: uint32_t where
  "MOD_MSG_CODE_STREAM_REQ = 3"

definition MOD_MSG_CODE_STREAM_ERROR :: uint32_t where
  "MOD_MSG_CODE_STREAM_ERROR = 4"

definition MOD_MSG_CODE_STREAM_START :: uint32_t where
  "MOD_MSG_CODE_STREAM_START = 5"

definition MOD_MSG_CODE_STREAM_STOP :: uint32_t where
  "MOD_MSG_CODE_STREAM_STOP = 6"

definition MOD_MSG_CODE_STREAM_TYPE :: uint32_t where
  "MOD_MSG_CODE_STREAM_TYPE = 7"

definition MOD_MSG_CODE_LOGIN_NACK :: uint32_t where
  "MOD_MSG_CODE_LOGIN_NACK = 8"

definition DRONE_ID :: uint32_t where
  "DRONE_ID = 12"

definition SOCK_FD_INVAL :: int where
  "SOCK_FD_INVAL = - 1"

definition NUM_STREAM_PORT_DRONE :: uint32_t where
  "NUM_STREAM_PORT_DRONE = 17000"

record ModuleMessage =
  address :: uint32_t
  code :: uint32_t
  data :: uint32_t

text \<open>
  \<open>insertModuleMessage(&queue, message, MOD_MSGQ_BLOCK)\<close> as the modules call it: on the
  address of a global queue, the return code dropped.
\<close>

definition insert_blocking ::
  "'m ModuleMessageQueue \<Rightarrow> 'm option \<Rightarrow> 'm ModuleMessageQueue outcome" where
  "insert_blocking q message =
     (case insertModuleMessage (Some q) message MOD_MSGQ_BLOCK of
        Returns (rc, Some q1) \<Rightarrow> Returns q1
      | Returns (rc, None) \<Rightarrow> Returns q
      | Blocks \<Rightarrow> Blocks
      | Undefined \<Rightarrow> Undefined)"

section \<open>Bytes on the wire\<close>

text \<open>
  Integers are sent as they lie in memory, so the byte order is the host's; it is a
  parameter. A socket's receive side is the bytes that arrive before the receive timeout
  runs out, and whether the peer has closed behind them. \<open>recvTimeout\<close> is called with
  \<open>MSG_WAITALL\<close> throughout: it hands out the requested bytes, or the fewer that came,
  or 0 at end of stream, or \<open>-1\<close> on a timeout with nothing received.
\<close>

datatype endian = LittleEndian | BigEndian

definition le_bytes :: "uint32_t \<Rightarrow> byte list" where
  "le_bytes w = [ucast w, ucast (drop_bit 8 w), ucast (drop_bit 16 w), ucast (drop_bit 24 w)]"

fun le_word :: "byte list \<Rightarrow> uint32_t" where
  "le_word [] = 0"
| "le_word (b # bs) = ucast b OR push_bit 8 (le_word bs)"

definition bytes_of_u32 :: "endian \<Rightarrow> uint32_t \<Rightarrow> byte list" where
  "bytes_of_u32 e w = (case e of LittleEndian \<Rightarrow> le_bytes w | BigEndian \<Rightarrow> rev (le_bytes w))"

definition u32_of_bytes :: "endian \<Rightarrow> byte list \<Rightarrow> uint32_t" where
  "u32_of_bytes e bs = (case e of LittleEndian \<Rightarrow> le_word bs | BigEndian \<Rightarrow> le_word (rev bs))"

text \<open>An array of \<open>uint32_t\<close> as bytes, and its \<open>i\<close>-th element read back.\<close>

definition bytes_of_fields :: "endian \<Rightarrow> uint32_t list \<Rightarrow> byte list" where
  "bytes_of_fields e ws = concat (map (bytes_of_u32 e) ws)"

definition field :: "endian \<Rightarrow> byte list \<Rightarrow> nat \<Rightarrow> uint32_t" where
  "field e buf i = u32_of_bytes e (take 4 (drop (4 * i) buf))"

record RxStream =
  pending :: "byte list"
  peer_closed :: bool

definition recvTimeout :: "RxStream \<Rightarrow> nat \<Rightarrow> int \<times> byte list \<times> RxStream" where
  "recvTimeout rx len =
     (if pending rx = [] then ((if peer_closed rx then 0 else - 1), [], rx)
      else (int (length (take len (pending rx))), take len (pending rx),
            rx\<lparr>pending := drop len (pending rx)\<rparr>))"

text \<open>The received bytes overwrite the start of the caller's buffer.\<close>

definition fill :: "byte list \<Rightarrow> byte list \<Rightarrow> byte list" where
  "fill buf got = got @ drop (length got) buf"

text \<open>
  The byte counts are kept in an \<open>int\<close> and compared with \<open>sizeof\<close>, a \<open>size_t\<close>: C
  converts the \<open>int\<close> to \<open>size_t\<close> for the comparison, so \<open>-1\<close> compares as the largest
  value.
\<close>

definition as_size_t :: "int \<Rightarrow> size_t" where
  "as_size_t i = word_of_int i"

text \<open>\<open>cleanupInputMessages\<close>: read and drop until nothing is available.\<close>

definition cleanupInputMessages :: "RxStream \<Rightarrow> RxStream" where
  "cleanupInputMessages rx = rx\<lparr>pending := []\<rparr>"

section \<open>Stream request on the wire\<close>

text \<open>
  Ground control, \<open>requestStream\<close> (GroundControl stream_utils.c), lines 130-176: the
  argument check and the two sends of the request, the header
  \<open>{MOD_NAME_STREAM, MOD_MSG_CODE_STREAM_REQ}\<close> and then the port. The source sends the
  constant \<open>NUM_STREAM_PORT_DRONE\<close>; the port is a parameter here. \<open>sent1\<close> and \<open>sent2\<close>
  are what the two \<open>send\<close> calls return. \<open>Inl\<close> is an early return with its value;
  \<open>Inr\<close> is the point after line 176, where the function goes on to wait for the reply.
  The second component is what reached the wire.
\<close>

definition requestStream_send ::
  "endian \<Rightarrow> int \<Rightarrow> bool \<Rightarrow> uint32_t \<Rightarrow> int \<Rightarrow> int \<Rightarrow> (int + unit) \<times> byte list" where
  "requestStream_send e socketFd pipeline_given streamPort sent1 sent2 =
     (if socketFd < 0 \<or> \<not> pipeline_given then (Inl (- 1), [])
      else
        let messageHeader = bytes_of_fields e [MOD_NAME_STREAM, MOD_MSG_CODE_STREAM_REQ];
            wire1 = take (nat sent1) messageHeader
        in if as_size_t sent1 < 8 then (Inl (- 1), wire1)
           else
             let wire2 = wire1 @ take (nat sent2) (bytes_of_u32 e streamPort)
             in if as_size_t sent2 < 4 then (Inl (- 1), wire2)
                else (Inr (), wire2))"

text \<open>
  Drone, \<open>networkToStreamMessage\<close> (CompanionComputer com_utils.c, lines 833-919): the
  message object is zeroed by \<open>calloc\<close>, addressed to the stream module and given the
  code of the header; a stream request reads the port into the payload. The message is
  then pushed on the stream queue, blocking.
\<close>

definition networkToStreamMessage ::
  "endian \<Rightarrow> int \<Rightarrow> RxStream \<Rightarrow> uint32_t \<Rightarrow> bool \<Rightarrow> ModuleMessage ModuleMessageQueue \<Rightarrow>
     (int \<times> RxStream \<times> ModuleMessage ModuleMessageQueue) outcome" where
  "networkToStreamMessage e sockFd rx msgCode calloc_succeeds streamMsgq =
     (if 0 \<le> sockFd then
        if calloc_succeeds then
          let message = \<lparr>address = MOD_NAME_STREAM, code = msgCode, data = 0\<rparr>
          in if msgCode = MOD_MSG_CODE_STREAM_REQ then
               (case recvTimeout rx 4 of
                  (len, got, rx1) \<Rightarrow>
                    if as_size_t len < 4 then Returns (- 1, rx1, streamMsgq)
                    else
                      (case insert_blocking streamMsgq
                              (Some (message\<lparr>data := u32_of_bytes e (fill [0, 0, 0, 0] got)\<rparr>)) of
                         Returns q \<Rightarrow> Returns (0, rx1, q)
                       | Blocks \<Rightarrow> Blocks
                       | Undefined \<Rightarrow> Undefined))
             else if msgCode = MOD_MSG_CODE_STREAM_START \<or> msgCode = MOD_MSG_CODE_STREAM_STOP then
               (case insert_blocking streamMsgq (Some message) of
                  Returns q \<Rightarrow> Returns (0, rx, q)
                | Blocks \<Rightarrow> Blocks
                | Undefined \<Rightarrow> Undefined)
             else Returns (- 1, rx, streamMsgq)
        else Returns (- 1, rx, streamMsgq)
      else Returns (- 1, rx, streamMsgq))"

text \<open>Drone, \<open>inputMessageHandler\<close> (lines 773-822): the header, then the module's decoder.\<close>

definition inputMessageHandler ::
  "endian \<Rightarrow> int \<Rightarrow> RxStream \<Rightarrow> bool \<Rightarrow> ModuleMessage ModuleMessageQueue \<Rightarrow>
     (int \<times> RxStream \<times> ModuleMessage ModuleMessageQueue) outcome" where
  "inputMessageHandler e sockFd rx calloc_succeeds streamMsgq =
     (if 0 \<le> sockFd then
        (case recvTimeout rx 8 of
           (len, got, rx1) \<Rightarrow>
             if len < 0 then Returns (- 1, cleanupInputMessages rx1, streamMsgq)
             else
               let messageHeader = fill (replicate 8 0) got
               in if field e messageHeader 0 = MOD_NAME_STREAM then
                    (case networkToStreamMessage e sockFd rx1 (field e messageHeader 1)
                            calloc_succeeds streamMsgq of
                       Returns (rc, rx2, q) \<Rightarrow>
                         if rc \<noteq> 0 then Returns (- 1, cleanupInputMessages rx2, q)
                         else Returns (0, rx2, q)
                     | Blocks \<Rightarrow> Blocks
                     | Undefined \<Rightarrow> Undefined)
                  else Returns (- 1, cleanupInputMessages rx1, streamMsgq))
      else Returns (- 1, rx, streamMsgq))"

section \<open>Stream control state machine (drone stream_utils.c)\<close>

text \<open>
  The media engine is GStreamer. Of the pipeline the handlers touch two things: they
  request state changes, recorded in order, and the request handler sets the port of
  the network sink. A refused state change is only logged, so its result is not kept.
\<close>

datatype GstState =
  GST_STATE_VOID_PENDING | GST_STATE_NULL | GST_STATE_READY | GST_STATE_PAUSED | GST_STATE_PLAYING

definition PIPE_INITIAL_STATE :: GstState where
  "PIPE_INITIAL_STATE = GST_STATE_READY"

record Pipeline =
  state_requests :: "GstState list"
  sink_port :: uint32_t

text \<open>
  What the handlers reach besides their arguments: the network module's queue, the
  coding format chosen at start-up, and two results of the environment, whether
  \<open>calloc\<close> yields a message object and whether the pipeline has its network sink.
\<close>

record StreamGlobals =
  networkMsgq :: "ModuleMessage ModuleMessageQueue"
  currentCodingFormat :: uint32_t
  message_alloc_ok :: bool
  netsink_found :: bool

datatype StreamEvent =
  STREAM_EVENT_STREAM_REQ | STREAM_EVENT_STREAM_START | STREAM_EVENT_STREAM_STOP |
  STREAM_EVENT_PIPE_ERROR

datatype StreamState = STREAM_STATE_STANDBY | STREAM_STATE_PLAYING

text \<open>
  \<open>EventHandler_T\<close>: a handler gets the address of the controller's message variable and
  of its pipeline variable (\<open>None\<close> for a \<open>NULL\<close> address) and returns their new content
  with the globals.
\<close>

type_synonym EventHandler_T =
  "ModuleMessage option option \<Rightarrow> Pipeline option \<Rightarrow> StreamGlobals \<Rightarrow>
     (ModuleMessage option option \<times> Pipeline option \<times> StreamGlobals) outcome"

record StateContext =
  nextState :: StreamState
  eventHandler :: "EventHandler_T option"

definition emptyHandler :: EventHandler_T where
  "emptyHandler message pipeline g =
     (case message of
        Some cur \<Rightarrow> Returns (Some None, pipeline, g)
      | None \<Rightarrow> Returns (None, pipeline, g))"

definition streamRequestHandler :: EventHandler_T where
  "streamRequestHandler message pipeline g =
     (case (message, pipeline) of
        (Some cur, Some p) \<Rightarrow>
          (case (if netsink_found g
                 then (case cur of
                         None \<Rightarrow> None
                       | Some m \<Rightarrow> Some (p\<lparr>sink_port := data m\<rparr>))
                 else Some p) of
             None \<Rightarrow> Undefined
           | Some p1 \<Rightarrow>
               if message_alloc_ok g then
                 (case insert_blocking (networkMsgq g)
                         (Some \<lparr>address = MOD_NAME_GCCOMMON, code = MOD_MSG_CODE_STREAM_TYPE,
                                 data = currentCodingFormat g\<rparr>) of
                    Returns nq \<Rightarrow> Returns (Some None, Some p1, g\<lparr>networkMsgq := nq\<rparr>)
                  | Blocks \<Rightarrow> Blocks
                  | Undefined \<Rightarrow> Undefined)
               else Returns (Some None, Some p1, g))
      | _ \<Rightarrow> Returns (message, pipeline, g))"

definition streamStopHandler :: EventHandler_T where
  "streamStopHandler message pipeline g =
     (case (message, pipeline) of
        (Some cur, Some p) \<Rightarrow>
          Returns (Some None,
                   Some (p\<lparr>state_requests := state_requests p @ [PIPE_INITIAL_STATE]\<rparr>), g)
      | _ \<Rightarrow> Returns (message, pipeline, g))"

definition streamStartHandler :: EventHandler_T where
  "streamStartHandler message pipeline g =
     (case (message, pipeline) of
        (Some cur, Some p) \<Rightarrow>
          Returns (Some None,
                   Some (p\<lparr>state_requests := state_requests p @ [GST_STATE_PLAYING]\<rparr>), g)
      | _ \<Rightarrow> Returns (message, pipeline, g))"

definition streamErrorHandler :: EventHandler_T where
  "streamErrorHandler message pipeline g =
     (case (message, pipeline) of
        (Some cur, Some p) \<Rightarrow>
          (case cur of
             None \<Rightarrow> Undefined
           | Some m \<Rightarrow>
               (case insert_blocking (networkMsgq g) (Some (m\<lparr>address := MOD_NAME_GCCOMMON\<rparr>)) of
                  Returns nq \<Rightarrow>
                    Returns (Some None,
                             Some (p\<lparr>state_requests := state_requests p @ [GST_STATE_NULL]\<rparr>),
                             g\<lparr>networkMsgq := nq\<rparr>)
                | Blocks \<Rightarrow> Blocks
                | Undefined \<Rightarrow> Undefined))
      | _ \<Rightarrow> Returns (message, pipeline, g))"

text \<open>
  The controller is a table indexed by state and event. \<open>threadFuncStreamControl\<close>
  declares it zeroed (state 0 is standby, the handler pointer is \<open>NULL\<close>) and
  \<open>initStreamController\<close> assigns its eight entries.
\<close>

type_synonym StreamController = "StreamState \<times> StreamEvent \<Rightarrow> StateContext"

definition zeroed_controller :: StreamController where
  "zeroed_controller = (\<lambda>entry. \<lparr>nextState = STREAM_STATE_STANDBY, eventHandler = None\<rparr>)"

definition initStreamController :: "StreamController \<Rightarrow> StreamController" where
  "initStreamController controller = controller
     ((STREAM_STATE_STANDBY, STREAM_EVENT_STREAM_REQ) :=
        \<lparr>nextState = STREAM_STATE_STANDBY, eventHandler = Some streamRequestHandler\<rparr>,
      (STREAM_STATE_STANDBY, STREAM_EVENT_STREAM_START) :=
        \<lparr>nextState = STREAM_STATE_PLAYING, eventHandler = Some streamStartHandler\<rparr>,
      (STREAM_STATE_STANDBY, STREAM_EVENT_STREAM_STOP) :=
        \<lparr>nextState = STREAM_STATE_STANDBY, eventHandler = Some emptyHandler\<rparr>,
      (STREAM_STATE_STANDBY, STREAM_EVENT_PIPE_ERROR) :=
        \<lparr>nextState = STREAM_STATE_STANDBY, eventHandler = Some streamErrorHandler\<rparr>,
      (STREAM_STATE_PLAYING, STREAM_EVENT_STREAM_REQ) :=
        \<lparr>nextState = STREAM_STATE_PLAYING, eventHandler = Some emptyHandler\<rparr>,
      (STREAM_STATE_PLAYING, STREAM_EVENT_STREAM_START) :=
        \<lparr>nextState = STREAM_STATE_PLAYING, eventHandler = Some emptyHandler\<rparr>,
      (STREAM_STATE_PLAYING, STREAM_EVENT_STREAM_STOP) :=
        \<lparr>nextState = STREAM_STATE_STANDBY, eventHandler = Some streamStopHandler\<rparr>,
      (STREAM_STATE_PLAYING, STREAM_EVENT_PIPE_ERROR) :=
        \<lparr>nextState = STREAM_STATE_STANDBY, eventHandler = Some streamErrorHandler\<rparr>)"

text \<open>The \<open>switch\<close> of the control loop: the event of a message code, if it has one.\<close>

definition event_of_code :: "uint32_t \<Rightarrow> StreamEvent option" where
  "event_of_code c =
     (if c = MOD_MSG_CODE_STREAM_START then Some STREAM_EVENT_STREAM_START
      else if c = MOD_MSG_CODE_STREAM_STOP then Some STREAM_EVENT_STREAM_STOP
      else if c = MOD_MSG_CODE_STREAM_REQ then Some STREAM_EVENT_STREAM_REQ
      else if c = MOD_MSG_CODE_STREAM_ERROR then Some STREAM_EVENT_PIPE_ERROR
      else None)"

text \<open>
  The state of the control thread between two rounds of its loop, and one round (lines
  449-497): a blocking pop from the stream queue, the event of the message, the handler
  of the table entry, then the next state of the same entry.
\<close>

record StreamControl =
  sc_state :: StreamState
  sc_message :: "ModuleMessage option"
  sc_pipeline :: Pipeline
  sc_streamMsgq :: "ModuleMessage ModuleMessageQueue"
  sc_globals :: StreamGlobals

definition threadFuncStreamControl_round :: "StreamControl \<Rightarrow> StreamControl outcome" where
  "threadFuncStreamControl_round sc =
     (case removeModuleMessage (Some (sc_streamMsgq sc)) (Some (sc_message sc)) MOD_MSGQ_BLOCK of
        Undefined \<Rightarrow> Undefined
      | Blocks \<Rightarrow> Blocks
      | Returns (rc, sq, out) \<Rightarrow>
          let sc1 = sc\<lparr>sc_streamMsgq := (case sq of Some q \<Rightarrow> q | None \<Rightarrow> sc_streamMsgq sc),
                       sc_message := (case out of Some cur \<Rightarrow> cur | None \<Rightarrow> sc_message sc)\<rparr>
          in if rc \<noteq> 0 then Returns sc1
             else
               (case sc_message sc1 of
                  None \<Rightarrow> Undefined
                | Some m \<Rightarrow>
                    (case event_of_code (code m) of
                       None \<Rightarrow> Returns sc1
                     | Some event \<Rightarrow>
                         let entry = initStreamController zeroed_controller (sc_state sc1, event)
                         in (case eventHandler entry of
                               None \<Rightarrow> Undefined
                             | Some handler \<Rightarrow>
                                 (case handler (Some (sc_message sc1)) (Some (sc_pipeline sc1))
                                         (sc_globals sc1) of
                                    Undefined \<Rightarrow> Undefined
                                  | Blocks \<Rightarrow> Blocks
                                  | Returns (message1, pipeline1, g1) \<Rightarrow>
                                      Returns (sc1\<lparr>sc_state := nextState entry,
                                                   sc_message :=
                                                     (case message1 of
                                                        Some cur \<Rightarrow> cur
                                                      | None \<Rightarrow> sc_message sc1),
                                                   sc_pipeline :=
                                                     (case pipeline1 of
                                                        Some p \<Rightarrow> p
                                                      | None \<Rightarrow> sc_pipeline sc1),
                                                   sc_globals := g1\<rparr>))))))"

text \<open>
  \<open>pipelineErrorCallback\<close> (lines 974-1012), run by the media engine's event loop: a
  zeroed message object addressed to the stream module with the stream-error code is
  pushed on the stream queue, blocking.
\<close>

definition pipelineErrorCallback ::
  "bool \<Rightarrow> bool \<Rightarrow> ModuleMessage ModuleMessageQueue \<Rightarrow> ModuleMessage ModuleMessageQueue outcome" where
  "pipelineErrorCallback message_given calloc_succeeds streamMsgq =
     (if message_given then
        if calloc_succeeds then
          insert_blocking streamMsgq
            (Some \<lparr>address = MOD_NAME_STREAM, code = MOD_MSG_CODE_STREAM_ERROR, data = 0\<rparr>)
        else Returns streamMsgq
      else Returns streamMsgq)"

text \<open>
  The transition table as the specification words it (its section 4.4): the next state
  and the name of the handler for each of the eight pairs.
\<close>

datatype spec_handler =
  ReportCapability | StartMediaEngine | StopMediaEngine | StopMediaEngineNotifyPeer | NoOp

fun spec_transition :: "StreamState \<Rightarrow> StreamEvent \<Rightarrow> StreamState \<times> spec_handler" where
  "spec_transition STREAM_STATE_STANDBY STREAM_EVENT_STREAM_REQ =
     (STREAM_STATE_STANDBY, ReportCapability)"
| "spec_transition STREAM_STATE_STANDBY STREAM_EVENT_STREAM_START =
     (STREAM_STATE_PLAYING, StartMediaEngine)"
| "spec_transition STREAM_STATE_STANDBY STREAM_EVENT_STREAM_STOP =
     (STREAM_STATE_STANDBY, NoOp)"
| "spec_transition STREAM_STATE_STANDBY STREAM_EVENT_PIPE_ERROR =
     (STREAM_STATE_STANDBY, StopMediaEngineNotifyPeer)"
| "spec_transition STREAM_STATE_PLAYING STREAM_EVENT_STREAM_REQ =
     (STREAM_STATE_PLAYING, NoOp)"
| "spec_transition STREAM_STATE_PLAYING STREAM_EVENT_STREAM_START =
     (STREAM_STATE_PLAYING, NoOp)"
| "spec_transition STREAM_STATE_PLAYING STREAM_EVENT_STREAM_STOP =
     (STREAM_STATE_STANDBY, StopMediaEngine)"
| "spec_transition STREAM_STATE_PLAYING STREAM_EVENT_PIPE_ERROR =
     (STREAM_STATE_STANDBY, StopMediaEngineNotifyPeer)"

fun handler_named :: "spec_handler \<Rightarrow> EventHandler_T" where
  "handler_named ReportCapability = streamRequestHandler"
| "handler_named StartMediaEngine = streamStartHandler"
| "handler_named StopMediaEngine = streamStopHandler"
| "handler_named StopMediaEngineNotifyPeer = streamErrorHandler"
| "handler_named NoOp = emptyHandler"

section \<open>Login (ground control com_utils.c, drone com_utils.c)\<close>

text \<open>
  Ground control, \<open>authDrone\<close> (lines 495-557). \<open>droneID\<close> is the out-parameter (\<open>None\<close>
  for \<open>NULL\<close>), \<open>sent\<close> what \<open>send\<close> returns for the reply. The result is the return
  value, the out-parameter, the reply bytes that reached the wire and the receive side.
\<close>

definition authDrone ::
  "endian \<Rightarrow> int \<Rightarrow> uint32_t option \<Rightarrow> RxStream \<Rightarrow> int \<Rightarrow>
     int \<times> uint32_t option \<times> byte list \<times> RxStream" where
  "authDrone e serviceSocket droneID rx sent =
     (if serviceSocket < 0 \<or> droneID = None then (- 1, droneID, [], rx)
      else
        (case recvTimeout rx 8 of
           (len, got, rx1) \<Rightarrow>
             if as_size_t len < 8 then (- 1, droneID, [], rx1)
             else
               let loginMessage = fill (replicate 8 0) got
               in if MOD_MSG_CODE_LOGIN = field e loginMessage 0 then
                    (if sent < 0 then - 1 else 0,
                     Some (field e loginMessage 1),
                     take (nat sent)
                       (bytes_of_fields e [MOD_MSG_CODE_LOGIN_ACK, field e loginMessage 1]),
                     rx1)
                  else
                    (if sent < 0 then - 1 else 0,
                     droneID,
                     take (nat sent) (bytes_of_fields e [MOD_MSG_CODE_LOGIN_NACK, 0]),
                     rx1)))"

text \<open>
  Ground control, \<open>threadFuncDroneService\<close>, what it does with one accepted connection
  (lines 368-489, up to the communication loop): it authenticates the drone; on a
  negative result it closes the service socket and goes back to \<open>accept\<close>, otherwise it
  enters the communication loop.
\<close>

record Service =
  loop_entered :: bool
  service_closed :: bool
  service_reply :: "byte list"
  service_droneID :: uint32_t

definition threadFuncDroneService_accepted ::
  "endian \<Rightarrow> int \<Rightarrow> uint32_t \<Rightarrow> RxStream \<Rightarrow> int \<Rightarrow> Service" where
  "threadFuncDroneService_accepted e serviceSocket droneID rx sent =
     (case authDrone e serviceSocket (Some droneID) rx sent of
        (rc, droneID1, reply, rx1) \<Rightarrow>
          if rc < 0 then
            \<lparr>loop_entered = False, service_closed = True, service_reply = reply,
             service_droneID = (case droneID1 of Some v \<Rightarrow> v | None \<Rightarrow> droneID)\<rparr>
          else
            \<lparr>loop_entered = True, service_closed = False, service_reply = reply,
             service_droneID = (case droneID1 of Some v \<Rightarrow> v | None \<Rightarrow> droneID)\<rparr>)"

text \<open>
  Drone, \<open>connectToGroundControl\<close> (lines 603-771). The environment gives the results
  of the system calls; the result records the return value, the descriptor left in
  \<open>*fd\<close>, the descriptors passed to \<open>close\<close>, the bytes sent, whether \<open>SO_KEEPALIVE\<close> was
  requested on the socket and whether the request went through (a failure is only
  logged as a warning).
\<close>

record ConnectEnv =
  getaddrinfo_rc :: int
  addrinfo_found :: bool
  socket_ret :: int
  connect_ret :: int
  login_sent :: int
  login_reply :: RxStream
  keepalive_ret :: int

record ConnectResult =
  conn_retval :: int
  conn_fd :: "int option"
  conn_closed :: "int list"
  conn_wire :: "byte list"
  conn_keepalive_requested :: bool
  conn_keepalive_on :: bool

definition connectToGroundControl ::
  "endian \<Rightarrow> string option \<Rightarrow> string option \<Rightarrow> int option \<Rightarrow> ConnectEnv \<Rightarrow> ConnectResult" where
  "connectToGroundControl e node service fd env =
     (if fd \<noteq> None \<and> node \<noteq> None \<and> service \<noteq> None then
        if getaddrinfo_rc env \<noteq> 0 then
          \<lparr>conn_retval = - 1, conn_fd = Some SOCK_FD_INVAL, conn_closed = [], conn_wire = [],
           conn_keepalive_requested = False, conn_keepalive_on = False\<rparr>
        else if \<not> addrinfo_found env then
          \<lparr>conn_retval = - 1, conn_fd = Some SOCK_FD_INVAL, conn_closed = [], conn_wire = [],
           conn_keepalive_requested = False, conn_keepalive_on = False\<rparr>
        else if socket_ret env < 0 then
          \<lparr>conn_retval = - 1, conn_fd = Some SOCK_FD_INVAL, conn_closed = [], conn_wire = [],
           conn_keepalive_requested = False, conn_keepalive_on = False\<rparr>
        else if connect_ret env < 0 then
          \<lparr>conn_retval = - 1, conn_fd = Some SOCK_FD_INVAL, conn_closed = [], conn_wire = [],
           conn_keepalive_requested = False, conn_keepalive_on = False\<rparr>
        else
          let wire = take (nat (login_sent env)) (bytes_of_fields e [MOD_MSG_CODE_LOGIN, DRONE_ID])
          in if login_sent env < 0 \<or> as_size_t (login_sent env) < 8 then
               \<lparr>conn_retval = - 1, conn_fd = Some SOCK_FD_INVAL, conn_closed = [socket_ret env],
                conn_wire = wire, conn_keepalive_requested = False,
                conn_keepalive_on = False\<rparr>
             else
               (case recvTimeout (login_reply env) 8 of
                  (len, got, rx1) \<Rightarrow>
                    if as_size_t len < 8 then
                      \<lparr>conn_retval = - 1, conn_fd = Some SOCK_FD_INVAL,
                       conn_closed = [socket_ret env], conn_wire = wire,
                       conn_keepalive_requested = False, conn_keepalive_on = False\<rparr>
                    else
                      let loginMessage = fill (replicate 8 0) got
                      in if field e loginMessage 0 \<noteq> MOD_MSG_CODE_LOGIN_ACK \<or>
                            field e loginMessage 1 \<noteq> DRONE_ID then
                           \<lparr>conn_retval = - 1, conn_fd = Some SOCK_FD_INVAL,
                            conn_closed = [socket_ret env], conn_wire = wire,
                            conn_keepalive_requested = False, conn_keepalive_on = False\<rparr>
                         else
                           \<lparr>conn_retval = 0, conn_fd = Some (socket_ret env), conn_closed = [],
                            conn_wire = wire, conn_keepalive_requested = True,
                            conn_keepalive_on = (\<not> keepalive_ret env < 0)\<rparr>)
      else
        \<lparr>conn_retval = - 1, conn_fd = fd, conn_closed = [], conn_wire = [],
         conn_keepalive_requested = False, conn_keepalive_on = False\<rparr>)"

section \<open>Index arithmetic\<close>

lemma nat_pow2: "(s::nat) \<noteq> 0 \<Longrightarrow> s AND (s - 1) = 0 \<Longrightarrow> \<exists>n. s = 2 ^ n"
proof (induction s rule: less_induct)
  case (less s)
  have rec: "s AND (s - 1) = of_bool (odd s \<and> odd (s - 1)) + 2 * ((s div 2) AND ((s - 1) div 2))"
    by (rule and_rec)
  show ?case
  proof (cases "even s")
    case True
    then obtain m where m: "s = 2 * m" by (elim evenE)
    with less.prems have m0: "m \<noteq> 0" by simp
    have "(s - 1) div 2 = m - 1" using m m0 by (cases m) simp_all
    with rec True m have "s AND (s - 1) = 2 * (m AND (m - 1))"
      by simp
    with less.prems have "m AND (m - 1) = 0" by simp
    moreover have "m < s" using m m0 by simp
    ultimately obtain k where "m = 2 ^ k" using less.IH m0 by blast
    with m have "s = 2 ^ Suc k" by simp
    then show ?thesis by blast
  next
    case False
    then obtain m where m: "s = 2 * m + 1" by (elim oddE)
    with rec have "s AND (s - 1) = 2 * m"
      by simp
    with less.prems have "m = 0" by simp
    with m have "s = 2 ^ 0" by simp
    then show ?thesis by blast
  qed
qed

lemma exponent_less: "unat (s::size_t) = 2 ^ n \<Longrightarrow> n < 64"
proof -
  assume a: "unat s = 2 ^ n"
  have "unat s < 2 ^ LENGTH(64)" by (rule unsigned_less)
  with a have "(2::nat) ^ n < 2 ^ 64" by simp
  then show "n < 64"
    by (meson nat_power_less_imp_less zero_less_numeral)
qed

lemma word_pow2:
  fixes s :: size_t
  assumes "s \<noteq> 0" "s AND (s - 1) = 0"
  shows "\<exists>n<64. s = 2 ^ n"
proof -
  have "unat (s AND (s - 1)) = unat s AND unat (s - 1)"
    by (rule unsigned_and_eq)
  also have "unat (s - 1) = unat s - 1"
    using assms(1) by (rule unat_minus_one)
  finally have "unat s AND (unat s - 1) = 0"
    using assms(2) by simp
  moreover have "unat s \<noteq> 0"
    using assms(1) by (simp add: unat_eq_0)
  ultimately obtain n where n: "unat s = 2 ^ n"
    using nat_pow2 by blast
  then have "n < 64"
    by (rule exponent_less)
  moreover have "s = 2 ^ n"
  proof -
    have "s = word_of_nat (unat s)" by simp
    also have "\<dots> = 2 ^ n" by (simp only: n) simp
    finally show ?thesis .
  qed
  ultimately show ?thesis by blast
qed

lemma pow2_test:
  assumes "n < 64"
  shows "(2 ^ n :: size_t) \<noteq> 0" and "(2 ^ n :: size_t) AND (2 ^ n - 1) = 0"
proof -
  show "(2 ^ n :: size_t) \<noteq> 0"
    using assms by simp
  have "(2 ^ n :: size_t) AND mask n = 0"
    by (rule bit_word_eqI) (auto simp: bit_simps)
  then show "(2 ^ n :: size_t) AND (2 ^ n - 1) = 0"
    by (simp add: mask_eq_decr_exp)
qed

lemma unat_pow2: "n < 64 \<Longrightarrow> unat (2 ^ n :: size_t) = 2 ^ n"
proof -
  assume n: "n < 64"
  have "unat (2 ^ n :: size_t) = unat (word_of_nat (2 ^ n) :: size_t)"
    by simp
  also have "\<dots> = 2 ^ n mod 2 ^ LENGTH(64)"
    by (simp only: unat_of_nat)
  also have "\<dots> = 2 ^ n"
    using n by (intro mod_less power_strict_increasing) simp_all
  finally show ?thesis .
qed

lemma unat_and_pow2_mask:
  fixes x :: size_t
  shows "unat (x AND (2 ^ n - 1)) = unat x mod 2 ^ n"
proof -
  have "unat (x AND (2 ^ n - 1)) = unat (take_bit n x)"
    by (simp add: take_bit_eq_mask mask_eq_decr_exp)
  also have "\<dots> = take_bit n (unat x)"
    by (rule unsigned_take_bit_eq)
  also have "\<dots> = unat x mod 2 ^ n"
    by (rule take_bit_eq_mod)
  finally show ?thesis .
qed

lemma unat_next_index:
  assumes "size_q q \<noteq> 0" "size_q q AND (size_q q - 1) = 0" "i < size_q q"
  shows "unat (next_index q i) = (unat i + 1) mod unat (size_q q)"
proof -
  obtain n where n: "n < 64" "size_q q = 2 ^ n"
    using word_pow2 [OF assms(1,2)] by blast
  have "unat i < unat (size_q q)"
    using assms(3) by (simp add: word_less_nat_alt)
  moreover have "unat (size_q q) < 2 ^ LENGTH(64)"
    by (rule unsigned_less)
  ultimately have "unat i + 1 < 2 ^ LENGTH(64)" by simp
  then have "unat (i + 1) = unat i + 1"
    by (simp add: unat_word_ariths)
  then show ?thesis
    using n by (simp add: next_index_def unat_and_pow2_mask unat_pow2)
qed

lemma next_index_less: "size_q q \<noteq> 0 \<Longrightarrow> next_index q i < size_q q"
proof -
  assume "size_q q \<noteq> 0"
  then have "size_q q - 1 < size_q q"
    by (simp add: word_less_nat_alt measure_unat)
  moreover have "next_index q i \<le> size_q q - 1"
    unfolding next_index_def by (rule word_and_le1)
  ultimately show ?thesis by simp
qed

lemma mod_add_inject:
  fixes b i j n :: nat
  assumes "j < n" "i < n"
  shows "((b + j) mod n = (b + i) mod n) = (j = i)"
proof -
  define r where "r = b mod n"
  have r: "r < n" using assms by (simp add: r_def)
  have red: "(b + k) mod n = (if r + k < n then r + k else r + k - n)" if "k < n" for k
  proof -
    have "(b + k) mod n = (r + k) mod n"
      by (simp add: r_def mod_add_left_eq)
    also have "\<dots> = (if r + k < n then r + k else r + k - n)"
      using r that by (simp add: mod_if)
    finally show ?thesis .
  qed
  show ?thesis
    using assms r by (auto simp: red split: if_splits)
qed

lemma rotate_update:
  assumes "i < length xs"
  shows "rotate b (xs[(b + i) mod length xs := v]) = (rotate b xs)[i := v]"
proof (rule nth_equalityI)
  show "length (rotate b (xs[(b + i) mod length xs := v])) = length ((rotate b xs)[i := v])"
    by simp
next
  fix j assume "j < length (rotate b (xs[(b + i) mod length xs := v]))"
  then have j: "j < length xs" by simp
  then have pos: "0 < length xs" by (cases xs) simp_all
  have "rotate b (xs[(b + i) mod length xs := v]) ! j
        = xs[(b + i) mod length xs := v] ! ((b + j) mod length xs)"
    using j by (simp add: nth_rotate)
  also have "\<dots> = (if (b + i) mod length xs = (b + j) mod length xs then v
                    else xs ! ((b + j) mod length xs))"
    using pos by (simp add: nth_list_update)
  also have "\<dots> = (if i = j then v else rotate b xs ! j)"
    using j assms by (simp add: mod_add_inject nth_rotate)
  also have "\<dots> = (rotate b xs)[i := v] ! j"
    using j assms by (simp add: nth_list_update)
  finally show "rotate b (xs[(b + i) mod length xs := v]) ! j = (rotate b xs)[i := v] ! j" .
qed

section \<open>The queue and the list it represents\<close>

lemma takeWhile_occupied:
  "takeWhile (\<lambda>s. s \<noteq> None) (map Some ms @ replicate k None) = map Some ms"
  by (cases k) (simp_all add: takeWhile_append)

lemma dropWhile_occupied:
  "dropWhile (\<lambda>s. s \<noteq> None) (map Some ms @ replicate k None) = replicate k None"
  by (cases k) (simp_all add: dropWhile_append)

lemma represents_contents:
  assumes "represents q ms"
  shows "queue_contents q = ms"
proof -
  from assms obtain buf where "messages q = Some buf"
    "rotate (unat (back_q q)) buf = map Some ms @ replicate (length buf - length ms) None"
    by (auto simp: represents_def)
  then show ?thesis
    by (simp del: not_None_eq add: queue_contents_def takeWhile_occupied comp_def)
qed

lemma represents_wf:
  assumes "represents q ms"
  shows "wf_queue q"
proof -
  from assms obtain buf where buf: "messages q = Some buf" "\<not> lock q"
    "size_q q \<noteq> 0" "size_q q AND (size_q q - 1) = 0"
    "length buf = unat (size_q q)" "back_q q < size_q q" "length ms \<le> length buf"
    "unat (front q) = (unat (back_q q) + length ms) mod length buf"
    "rotate (unat (back_q q)) buf = map Some ms @ replicate (length buf - length ms) None"
    by (auto simp: represents_def)
  have "queue_contents q = ms"
    using assms by (rule represents_contents)
  with buf show ?thesis
    by (simp del: not_None_eq add: wf_queue_def dropWhile_occupied list_all_iff)
qed

lemma wf_represents:
  assumes "wf_queue q"
  shows "represents q (queue_contents q)"
proof -
  from assms obtain buf where buf: "messages q = Some buf" "\<not> lock q"
    "size_q q \<noteq> 0" "size_q q AND (size_q q - 1) = 0"
    "length buf = unat (size_q q)" "back_q q < size_q q"
    "unat (front q) = (unat (back_q q) + length (queue_contents q)) mod length buf"
    "list_all (\<lambda>s. s = None) (dropWhile (\<lambda>s. s \<noteq> None) (rotate (unat (back_q q)) buf))"
    by (auto simp: wf_queue_def split: option.splits)
  define r where "r = rotate (unat (back_q q)) buf"
  define hd_part where "hd_part = takeWhile (\<lambda>s. s \<noteq> None) r"
  define tl_part where "tl_part = dropWhile (\<lambda>s. s \<noteq> None) r"
  have split: "r = hd_part @ tl_part"
    by (simp add: hd_part_def tl_part_def)
  have cont: "queue_contents q = map the hd_part"
    using buf(1) by (simp add: queue_contents_def hd_part_def r_def)
  have "\<forall>s\<in>set hd_part. s \<noteq> None"
    unfolding hd_part_def by (auto dest: set_takeWhileD)
  then have hd_eq: "hd_part = map Some (map the hd_part)"
    by (induction hd_part) auto
  have "\<forall>s\<in>set tl_part. s = None"
    using buf(8) by (simp add: tl_part_def r_def list_all_iff)
  then have tl_eq: "tl_part = replicate (length tl_part) None"
    by (induction tl_part) auto
  have len: "length r = length buf"
    by (simp add: r_def)
  have len_tl: "length tl_part = length buf - length (map the hd_part)"
    using split len by (metis add_diff_cancel_left' length_append length_map)
  have "r = map Some (map the hd_part) @ replicate (length buf - length (map the hd_part)) None"
    using split hd_eq tl_eq len_tl by metis
  moreover have "length (map the hd_part) \<le> length buf"
    using split len by (metis le_add1 length_append length_map)
  ultimately show ?thesis
    using buf cont by (simp add: represents_def r_def)
qed

lemma wf_iff_represents: "wf_queue q \<longleftrightarrow> (\<exists>ms. represents q ms)"
  using represents_wf wf_represents by blast

lemma represents_buffer:
  assumes "represents q ms"
  obtains buf where "messages q = Some buf" "\<not> lock q"
    "size_q q \<noteq> 0" "size_q q AND (size_q q - 1) = 0"
    "length buf = unat (size_q q)" "0 < length buf" "unat (back_q q) < length buf"
    "back_q q < size_q q" "length ms \<le> length buf"
    "unat (front q) = (unat (back_q q) + length ms) mod length buf"
    "front q < size_q q"
    "rotate (unat (back_q q)) buf = map Some ms @ replicate (length buf - length ms) None"
    "\<And>i. i < length buf \<Longrightarrow>
       buf ! ((unat (back_q q) + i) mod length buf) =
       (map Some ms @ replicate (length buf - length ms) None) ! i"
proof -
  from assms obtain buf where buf: "messages q = Some buf" "\<not> lock q"
    "size_q q \<noteq> 0" "size_q q AND (size_q q - 1) = 0"
    "length buf = unat (size_q q)" "back_q q < size_q q" "length ms \<le> length buf"
    "unat (front q) = (unat (back_q q) + length ms) mod length buf"
    "rotate (unat (back_q q)) buf = map Some ms @ replicate (length buf - length ms) None"
    by (auto simp: represents_def)
  have pos: "0 < length buf"
    using buf(3,5) by (simp add: unat_gt_0)
  have b: "unat (back_q q) < length buf"
    using buf(5,6) by (simp add: word_less_nat_alt)
  have "unat (front q) < length buf"
    using buf(8) pos by simp
  then have f: "front q < size_q q"
    using buf(5) by (simp add: word_less_nat_alt)
  have nth: "buf ! ((unat (back_q q) + i) mod length buf) =
       (map Some ms @ replicate (length buf - length ms) None) ! i" if "i < length buf" for i
    using that buf(9) nth_rotate [of i buf "unat (back_q q)"] by simp
  show thesis
    using that [OF buf(1-5) pos b buf(6-8) f buf(9) nth] .
qed

lemma represents_front_slot:
  assumes "represents q ms"
  shows "slot q (front q) =
           Some (if length ms < unat (size_q q) then None else Some (hd ms))"
proof -
  from assms obtain buf where buf: "messages q = Some buf"
    "length buf = unat (size_q q)" "0 < length buf" "length ms \<le> length buf"
    "unat (front q) = (unat (back_q q) + length ms) mod length buf"
    and nth: "\<And>i. i < length buf \<Longrightarrow>
       buf ! ((unat (back_q q) + i) mod length buf) =
       (map Some ms @ replicate (length buf - length ms) None) ! i"
    by (rule represents_buffer) blast
  have rd: "slot q (front q) = Some (buf ! ((unat (back_q q) + length ms) mod length buf))"
    using buf by (simp add: slot_def)
  show ?thesis
  proof (cases "length ms < length buf")
    case True
    then have "buf ! ((unat (back_q q) + length ms) mod length buf) = None"
      using nth [of "length ms"] by (simp add: nth_append)
    with rd True buf(2) show ?thesis by simp
  next
    case False
    with buf(4) have full: "length ms = length buf" by simp
    with buf(3) have ne: "ms \<noteq> []" by auto
    have "buf ! ((unat (back_q q) + length ms) mod length buf)
          = buf ! ((unat (back_q q) + 0) mod length buf)"
      by (simp add: full)
    also have "\<dots> = Some (hd ms)"
      using nth [of 0] buf(3) ne by (simp add: nth_append hd_conv_nth)
    finally show ?thesis
      using rd False buf(2) by simp
  qed
qed

lemma represents_back_slot:
  assumes "represents q ms"
  shows "slot q (back_q q) = Some (case ms of [] \<Rightarrow> None | m # rest \<Rightarrow> Some m)"
proof -
  from assms obtain buf where buf: "messages q = Some buf"
    "0 < length buf" "unat (back_q q) < length buf"
    and nth: "\<And>i. i < length buf \<Longrightarrow>
       buf ! ((unat (back_q q) + i) mod length buf) =
       (map Some ms @ replicate (length buf - length ms) None) ! i"
    by (rule represents_buffer) blast
  have "buf ! unat (back_q q) = (map Some ms @ replicate (length buf - length ms) None) ! 0"
    using nth [of 0] buf by simp
  also have "\<dots> = (case ms of [] \<Rightarrow> None | m # rest \<Rightarrow> Some m)"
    using buf(2) by (cases ms) simp_all
  finally show ?thesis
    using buf by (simp add: slot_def)
qed

lemma represents_store_front:
  assumes "represents q ms" "length ms < unat (size_q q)"
  shows "represents (store_front q m) (ms @ [m])"
proof -
  from assms(1) obtain buf where buf: "messages q = Some buf" "\<not> lock q"
    "size_q q \<noteq> 0" "size_q q AND (size_q q - 1) = 0"
    "length buf = unat (size_q q)" "0 < length buf" "unat (back_q q) < length buf"
    "back_q q < size_q q" "length ms \<le> length buf"
    "unat (front q) = (unat (back_q q) + length ms) mod length buf"
    "front q < size_q q"
    "rotate (unat (back_q q)) buf = map Some ms @ replicate (length buf - length ms) None"
    by (rule represents_buffer)
  have c: "length ms < length buf"
    using assms(2) buf(5) by simp
  have front': "unat (next_index q (front q)) = (unat (back_q q) + length (ms @ [m])) mod length buf"
    using unat_next_index [OF buf(3,4,11)] buf(5,10) by (simp add: mod_Suc_eq)
  have "rotate (unat (back_q q)) (buf[unat (front q) := Some m])
        = (rotate (unat (back_q q)) buf)[length ms := Some m]"
    using rotate_update [OF c, of "unat (back_q q)" "Some m"] buf(10) by simp
  also have "\<dots> = map Some ms @ (replicate (length buf - length ms) None)[0 := Some m]"
    by (simp add: buf(12) list_update_append)
  also have "replicate (length buf - length ms) None = None # replicate (length buf - length ms - 1) (None :: 'a option)"
    using c by (cases "length buf - length ms") simp_all
  finally have rot: "rotate (unat (back_q q)) (buf[unat (front q) := Some m])
        = map Some (ms @ [m]) @ replicate (length buf - length (ms @ [m])) None"
    by simp
  show ?thesis
    unfolding represents_def
    using buf c front' rot
    by (simp add: store_front_def set_slot_def)
qed

lemma represents_clear_back:
  assumes "represents q (m # ms)"
  shows "represents (clear_back q) ms"
proof -
  from assms obtain buf where buf: "messages q = Some buf" "\<not> lock q"
    "size_q q \<noteq> 0" "size_q q AND (size_q q - 1) = 0"
    "length buf = unat (size_q q)" "0 < length buf" "unat (back_q q) < length buf"
    "back_q q < size_q q" "length (m # ms) \<le> length buf"
    "unat (front q) = (unat (back_q q) + length (m # ms)) mod length buf"
    "front q < size_q q"
    "rotate (unat (back_q q)) buf = map Some (m # ms) @ replicate (length buf - length (m # ms)) None"
    by (rule represents_buffer)
  have back': "unat (next_index q (back_q q)) = (unat (back_q q) + 1) mod length buf"
    using unat_next_index [OF buf(3,4,8)] buf(5) by simp
  have lt: "next_index q (back_q q) < size_q q"
    using buf(3) by (rule next_index_less)
  have front': "unat (front q) = (unat (next_index q (back_q q)) + length ms) mod length buf"
    using buf(10) back' by (simp add: mod_add_left_eq)
  have "rotate (unat (next_index q (back_q q))) (buf[unat (back_q q) := None])
        = rotate (1 + unat (back_q q)) (buf[unat (back_q q) := None])"
    using back' rotate_conv_mod [of "1 + unat (back_q q)" "buf[unat (back_q q) := None]"] by simp
  also have "\<dots> = rotate 1 (rotate (unat (back_q q)) (buf[unat (back_q q) := None]))"
    by (simp only: rotate_rotate)
  also have "rotate (unat (back_q q)) (buf[unat (back_q q) := None])
             = (rotate (unat (back_q q)) buf)[0 := None]"
    using rotate_update [OF buf(6), of "unat (back_q q)" None] buf(7) by simp
  also have "\<dots> = None # map Some ms @ replicate (length buf - length (m # ms)) None"
    by (simp add: buf(12))
  also have "rotate 1 \<dots> = map Some ms @ replicate (length buf - length (m # ms)) None @ [None]"
    by simp
  also have "replicate (length buf - length (m # ms)) None @ [None]
             = replicate (length buf - length ms) (None :: 'a option)"
    using buf(9) by (simp add: replicate_append_same Suc_diff_le flip: replicate_Suc)
  finally have rot: "rotate (unat (next_index q (back_q q))) (buf[unat (back_q q) := None])
        = map Some ms @ replicate (length buf - length ms) None" .
  show ?thesis
    unfolding represents_def
    using buf lt front' rot
    by (simp add: clear_back_def set_slot_def)
qed

section \<open>Single operations on a well-formed queue\<close>

lemma insert_room:
  assumes "represents q ms" "length ms < unat (size_q q)"
  shows "insertModuleMessage (Some q) (Some m) noblock = Returns (0, Some (store_front q m))"
proof -
  have "\<not> lock q" using assms(1) by (auto simp: represents_def)
  moreover have "slot q (front q) = Some None"
    using represents_front_slot [OF assms(1)] assms(2) by simp
  ultimately show ?thesis
    by (simp add: insertModuleMessage_def)
qed

lemma insert_full:
  assumes "represents q ms" "length ms = unat (size_q q)"
  shows "insertModuleMessage (Some q) (Some m) noblock =
           (if noblock \<noteq> 0 then Returns (- 3, Some q) else Blocks)"
proof -
  have "\<not> lock q" using assms(1) by (auto simp: represents_def)
  moreover have "slot q (front q) = Some (Some (hd ms))"
    using represents_front_slot [OF assms(1)] assms(2) by simp
  ultimately show ?thesis
    by (simp add: insertModuleMessage_def)
qed

lemma remove_some:
  assumes "represents q (m # ms)"
  shows "removeModuleMessage (Some q) (Some cur) noblock =
           Returns (0, Some (clear_back q), Some (Some m))"
proof -
  have "\<not> lock q" using assms by (auto simp: represents_def)
  moreover have "slot q (back_q q) = Some (Some m)"
    using represents_back_slot [OF assms] by simp
  ultimately show ?thesis
    by (simp add: removeModuleMessage_def)
qed

lemma remove_empty:
  assumes "represents q []"
  shows "removeModuleMessage (Some q) (Some cur) noblock =
           (if noblock \<noteq> 0 then Returns (- 3, Some q, Some cur) else Blocks)"
proof -
  have "\<not> lock q" using assms by (auto simp: represents_def)
  moreover have "slot q (back_q q) = Some None"
    using represents_back_slot [OF assms] by simp
  ultimately show ?thesis
    by (simp add: removeModuleMessage_def)
qed

lemma represents_length: "represents q ms \<Longrightarrow> length ms \<le> unat (size_q q)"
  by (auto simp: represents_def)

lemma size_store_front [simp]: "size_q (store_front q m) = size_q q"
  by (simp add: store_front_def set_slot_def)

lemma size_clear_back [simp]: "size_q (clear_back q) = size_q q"
  by (simp add: clear_back_def set_slot_def)

section \<open>Runs against the reference queue\<close>

lemma run_ops_fifo:
  assumes "represents q ms"
  shows "case run_ops q ops of
           Returns (obs, q1) \<Rightarrow>
             represents q1 (queue_contents q1) \<and> size_q q1 = size_q q \<and>
             fifo_run (unat (size_q q)) ms ops = Returns (obs, queue_contents q1)
         | Blocks \<Rightarrow> fifo_run (unat (size_q q)) ms ops = Blocks
         | Undefined \<Rightarrow> False"
  using assms
proof (induction ops arbitrary: q ms)
  case Nil
  then show ?case by (simp add: represents_contents)
next
  case (Cons op ops)
  show ?case
  proof (cases op)
    case (Push m noblock)
    show ?thesis
    proof (cases "length ms < unat (size_q q)")
      case True
      have ins: "insertModuleMessage (Some q) (Some m) noblock = Returns (0, Some (store_front q m))"
        using Cons.prems True by (rule insert_room)
      have "represents (store_front q m) (ms @ [m])"
        using Cons.prems True by (rule represents_store_front)
      from Cons.IH [OF this] show ?thesis
        using True by (simp add: Push ins and_then_def split: outcome.splits prod.splits)
    next
      case False
      with represents_length [OF Cons.prems] have full: "length ms = unat (size_q q)"
        by simp
      have ins: "insertModuleMessage (Some q) (Some m) noblock =
                   (if noblock \<noteq> 0 then Returns (- 3, Some q) else Blocks)"
        using Cons.prems full by (rule insert_full)
      from Cons.IH [OF Cons.prems] show ?thesis
        using False by (simp add: Push ins and_then_def split: outcome.splits prod.splits)
    qed
  next
    case (Pop noblock)
    show ?thesis
    proof (cases ms)
      case Nil
      have rem: "removeModuleMessage (Some q) (Some None) noblock =
                   (if noblock \<noteq> 0 then Returns (- 3, Some q, Some None) else Blocks)"
        using Cons.prems unfolding Nil by (rule remove_empty)
      from Cons.IH [OF Cons.prems] show ?thesis
        by (simp add: Pop rem Nil and_then_def split: outcome.splits prod.splits)
    next
      case (Cons m rest)
      have rem: "removeModuleMessage (Some q) (Some None) noblock =
                   Returns (0, Some (clear_back q), Some (Some m))"
        using Cons.prems unfolding Cons by (rule remove_some)
      have "represents (clear_back q) rest"
        using Cons.prems unfolding Cons by (rule represents_clear_back)
      from Cons.IH [OF this] show ?thesis
        by (simp add: Pop rem Cons and_then_def split: outcome.splits prod.splits)
    qed
  qed
qed

lemma and_then_Returns:
  "and_then ob r = Returns (obs, s) \<longleftrightarrow> (\<exists>rest. obs = ob # rest \<and> r = Returns (rest, s))"
  by (auto simp: and_then_def split: outcome.splits)

lemma fifo_run_law:
  "fifo_run cap xs ops = Returns (obs, ys) \<Longrightarrow> xs @ accepted ops obs = delivered obs @ ys"
proof (induction ops arbitrary: xs obs)
  case Nil
  then show ?case by simp
next
  case (Cons op ops)
  show ?case
  proof (cases op)
    case (Push m noblock)
    show ?thesis
    proof (cases "length xs < cap")
      case True
      with Cons.prems Push obtain rest where rest: "obs = Pushed 0 # rest"
        "fifo_run cap (xs @ [m]) ops = Returns (rest, ys)"
        by (auto simp: and_then_Returns)
      from Cons.IH [OF rest(2)] show ?thesis
        by (simp add: Push rest(1))
    next
      case False
      with Cons.prems Push obtain rest where rest: "obs = Pushed (- 3) # rest"
        "fifo_run cap xs ops = Returns (rest, ys)"
        by (auto simp: and_then_Returns split: if_splits)
      from Cons.IH [OF rest(2)] show ?thesis
        by (simp add: Push rest(1))
    qed
  next
    case (Pop noblock)
    show ?thesis
    proof (cases xs)
      case Nil
      with Cons.prems Pop obtain rest where rest: "obs = Popped (- 3) None # rest"
        "fifo_run cap xs ops = Returns (rest, ys)"
        by (auto simp: and_then_Returns split: if_splits)
      from Cons.IH [OF rest(2)] show ?thesis
        by (simp add: Pop rest(1))
    next
      case (Cons x xs')
      with Cons.prems Pop obtain rest where rest: "obs = Popped 0 (Some x) # rest"
        "fifo_run cap xs' ops = Returns (rest, ys)"
        by (auto simp: and_then_Returns)
      from Cons.IH [OF rest(2)] show ?thesis
        by (simp add: Pop rest(1) Cons)
    qed
  qed
qed

lemma run_ops_from_fifo:
  assumes "represents q ms" "fifo_run (unat (size_q q)) ms ops = Returns (obs, ms1)"
  shows "\<exists>q1. run_ops q ops = Returns (obs, q1) \<and> represents q1 ms1 \<and> size_q q1 = size_q q"
  using run_ops_fifo [OF assms(1), of ops] assms(2)
  by (auto split: outcome.splits)

lemma foldr_and_then_Returns:
  "foldr and_then obs (Returns (rest, s)) = Returns (obs @ rest, s)"
  by (induction obs) (simp_all add: and_then_def)

lemma fifo_pushes:
  "length xs + length ms \<le> cap \<Longrightarrow>
   fifo_run cap xs (map (\<lambda>m. Push m noblock) ms @ ops)
     = foldr and_then (replicate (length ms) (Pushed 0)) (fifo_run cap (xs @ ms) ops)"
  by (induction ms arbitrary: xs) simp_all

lemma fifo_pops:
  "fifo_run cap (ms @ rest) (replicate (length ms) (Pop noblock) @ ops)
     = foldr and_then (map (\<lambda>m. Popped 0 (Some m)) ms) (fifo_run cap rest ops)"
  by (induction ms) simp_all

lemma init_represents:
  assumes "initModuleMessageQueue (Some q0) sz env = (0, Some q)"
  shows "represents q []" and "size_q q = sz"
  using assms
  by (auto simp: initModuleMessageQueue_def represents_def Let_def word_neq_0_conv
           split: if_splits)

lemma init_index_inv:
  assumes "initModuleMessageQueue (Some q0) sz env = (rc, Some q)" "messages q \<noteq> None"
    "sz \<noteq> 0" "sz AND (sz - 1) = 0"
  shows "index_inv q"
  using assms
  by (auto simp: initModuleMessageQueue_def index_inv_def Let_def word_neq_0_conv
           split: if_splits)

lemma fifo_run_nonblocking:
  "list_all nonblocking ops \<Longrightarrow> \<exists>obs ys. fifo_run cap xs ops = Returns (obs, ys)"
proof (induction ops arbitrary: xs)
  case Nil
  then show ?case by simp
next
  case (Cons op ops)
  then have rest: "\<exists>obs ys. fifo_run cap zs ops = Returns (obs, ys)" for zs
    by simp
  show ?case
  proof (cases op)
    case (Push m noblock)
    with Cons.prems have "noblock \<noteq> 0" by simp
    with rest [of "xs @ [m]"] rest [of xs] show ?thesis
      by (auto simp: Push and_then_def)
  next
    case (Pop noblock)
    with Cons.prems have "noblock \<noteq> 0" by simp
    with rest [of "tl xs"] rest [of xs] show ?thesis
      by (cases xs) (auto simp: Pop and_then_def)
  qed
qed

section \<open>Capacity, order and failed calls of the queue\<close>

text \<open>
  Claim C4. A queue freshly created with capacity \<open>2 ^ n\<close> takes \<open>2 ^ n\<close> non-blocking
  pushes, each answered 0, and answers the next non-blocking push with \<open>-3\<close> (full); it
  then holds the pushed messages. Popping \<open>2 ^ n\<close> times hands them all out, each pop
  answered 0, and the next non-blocking pop is answered \<open>-3\<close> (empty). The usable
  capacity is the declared one.
\<close>

theorem queue_capacity_fully_usable:
  assumes "n < 64"
    and "initModuleMessageQueue (Some q0) (2 ^ n) env = (0, Some q)"
    and "length msgs = 2 ^ n"
  shows "\<exists>qf qe.
           run_ops q (map (\<lambda>m. Push m MOD_MSGQ_NOBLOCK) msgs @ [Push extra MOD_MSGQ_NOBLOCK])
             = Returns (replicate (2 ^ n) (Pushed 0) @ [Pushed (- 3)], qf) \<and>
           queue_contents qf = msgs \<and>
           run_ops qf (replicate (2 ^ n) (Pop MOD_MSGQ_NOBLOCK) @ [Pop MOD_MSGQ_NOBLOCK])
             = Returns (map (\<lambda>m. Popped 0 (Some m)) msgs @ [Popped (- 3) None], qe) \<and>
           queue_contents qe = []"
proof -
  have rep: "represents q []" and sz: "size_q q = 2 ^ n"
    using init_represents [OF assms(2)] by simp_all
  have cap: "unat (size_q q) = length msgs"
    using assms(1,3) sz by (simp add: unat_pow2)
  have "fifo_run (length msgs) [] (map (\<lambda>m. Push m MOD_MSGQ_NOBLOCK) msgs @ [Push extra MOD_MSGQ_NOBLOCK])
          = foldr and_then (replicate (length msgs) (Pushed 0))
              (fifo_run (length msgs) ([] @ msgs) [Push extra MOD_MSGQ_NOBLOCK])"
    by (rule fifo_pushes) simp
  also have "fifo_run (length msgs) ([] @ msgs) [Push extra MOD_MSGQ_NOBLOCK]
          = Returns ([Pushed (- 3)], msgs)"
    by (simp add: and_then_def MOD_MSGQ_NOBLOCK_def)
  also have "foldr and_then (replicate (length msgs) (Pushed 0)) (Returns ([Pushed (- 3)], msgs))
          = Returns (replicate (length msgs) (Pushed 0) @ [Pushed (- 3)], msgs)"
    by (rule foldr_and_then_Returns)
  finally have "fifo_run (length msgs) [] (map (\<lambda>m. Push m MOD_MSGQ_NOBLOCK) msgs @ [Push extra MOD_MSGQ_NOBLOCK])
          = Returns (replicate (length msgs) (Pushed 0) @ [Pushed (- 3)], msgs)" .
  with rep cap obtain qf where qf:
    "run_ops q (map (\<lambda>m. Push m MOD_MSGQ_NOBLOCK) msgs @ [Push extra MOD_MSGQ_NOBLOCK])
       = Returns (replicate (length msgs) (Pushed 0) @ [Pushed (- 3)], qf)"
    "represents qf msgs" "size_q qf = size_q q"
    using run_ops_from_fifo [of q "[]"] by metis
  have "fifo_run (length msgs) (msgs @ []) (replicate (length msgs) (Pop MOD_MSGQ_NOBLOCK) @ [Pop MOD_MSGQ_NOBLOCK])
          = foldr and_then (map (\<lambda>m. Popped 0 (Some m)) msgs)
              (fifo_run (length msgs) [] [Pop MOD_MSGQ_NOBLOCK])"
    by (rule fifo_pops)
  also have "fifo_run (length msgs) [] [Pop MOD_MSGQ_NOBLOCK] = Returns ([Popped (- 3) None], [])"
    by (simp add: and_then_def MOD_MSGQ_NOBLOCK_def)
  also have "foldr and_then (map (\<lambda>m. Popped 0 (Some m)) msgs) (Returns ([Popped (- 3) None], []))
          = Returns (map (\<lambda>m. Popped 0 (Some m)) msgs @ [Popped (- 3) None], [])"
    by (rule foldr_and_then_Returns)
  finally have "fifo_run (length msgs) (msgs @ []) (replicate (length msgs) (Pop MOD_MSGQ_NOBLOCK) @ [Pop MOD_MSGQ_NOBLOCK])
          = Returns (map (\<lambda>m. Popped 0 (Some m)) msgs @ [Popped (- 3) None], [])" .
  with qf(2,3) cap obtain qe where qe:
    "run_ops qf (replicate (length msgs) (Pop MOD_MSGQ_NOBLOCK) @ [Pop MOD_MSGQ_NOBLOCK])
       = Returns (map (\<lambda>m. Popped 0 (Some m)) msgs @ [Popped (- 3) None], qe)"
    "represents qe []"
    using run_ops_from_fifo [of qf msgs] by (metis append_Nil2)
  show ?thesis
    using qf(1,2) qe assms(3) by (auto simp: represents_contents)
qed

theorem queue_capacity_fully_usable_witness:
  "(1::nat) < 64 \<and>
   initModuleMessageQueue
     (Some \<lparr>lock = True, size_q = 0, front = 7, back_q = 9, messages = None\<rparr>) (2 ^ 1)
     \<lparr>calloc_ok = True, mutexattr_init_rc = 0, mutexattr_settype_rc = 0, mutex_init_rc = 0,
      condattr_init_rc = 0, cond_init_rc = 0\<rparr>
     = (0, Some \<lparr>lock = False, size_q = 2, front = 0, back_q = 0,
                 messages = Some [None, None :: nat option]\<rparr>) \<and>
   length [10, 20 :: nat] = 2 ^ 1 \<and>
   (\<exists>qf qe.
      run_ops \<lparr>lock = False, size_q = 2, front = 0, back_q = 0, messages = Some [None, None]\<rparr>
        (map (\<lambda>m. Push m MOD_MSGQ_NOBLOCK) [10, 20 :: nat] @ [Push 30 MOD_MSGQ_NOBLOCK])
        = Returns (replicate (2 ^ 1) (Pushed 0) @ [Pushed (- 3)], qf) \<and>
      queue_contents qf = [10, 20] \<and>
      run_ops qf (replicate (2 ^ 1) (Pop MOD_MSGQ_NOBLOCK) @ [Pop MOD_MSGQ_NOBLOCK])
        = Returns (map (\<lambda>m. Popped 0 (Some m)) [10, 20] @ [Popped (- 3) None], qe) \<and>
      queue_contents qe = [])"
proof -
  have h1: "(1::nat) < 64" by simp
  have h2: "initModuleMessageQueue
     (Some \<lparr>lock = True, size_q = 0, front = 7, back_q = 9, messages = None\<rparr>) (2 ^ 1)
     \<lparr>calloc_ok = True, mutexattr_init_rc = 0, mutexattr_settype_rc = 0, mutex_init_rc = 0,
      condattr_init_rc = 0, cond_init_rc = 0\<rparr>
     = (0, Some \<lparr>lock = False, size_q = 2, front = 0, back_q = 0,
                 messages = Some [None, None :: nat option]\<rparr>)"
    by code_simp
  have h3: "length [10, 20 :: nat] = 2 ^ 1" by simp
  from queue_capacity_fully_usable [OF h1 h2 h3, of 30] h1 h2 h3 show ?thesis
    by blast
qed

text \<open>
  Claim C6. A run of pushes and pops on a well-formed queue makes the observations of
  the reference first-in first-out list of the same capacity, and the messages the queue
  held at the start followed by the accepted ones, in push order, are the delivered ones,
  in pop order, followed by those still queued. The queue stays well formed. A run of
  non-blocking calls always returns.
\<close>

theorem queue_is_fifo:
  "(wf_queue q \<and> run_ops q ops = Returns (obs, q1) \<longrightarrow>
      fifo_run (unat (size_q q)) (queue_contents q) ops = Returns (obs, queue_contents q1) \<and>
      queue_contents q @ accepted ops obs = delivered obs @ queue_contents q1 \<and>
      wf_queue q1) \<and>
   (wf_queue q \<and> list_all nonblocking ops \<longrightarrow> (\<exists>obs1 q2. run_ops q ops = Returns (obs1, q2)))"
proof (intro conjI impI)
  assume a: "wf_queue q \<and> run_ops q ops = Returns (obs, q1)"
  then have rep: "represents q (queue_contents q)"
    by (simp add: wf_represents)
  from run_ops_fifo [OF rep, of ops] a
  have fifo: "fifo_run (unat (size_q q)) (queue_contents q) ops = Returns (obs, queue_contents q1)"
    and rep1: "represents q1 (queue_contents q1)"
    by simp_all
  show "fifo_run (unat (size_q q)) (queue_contents q) ops = Returns (obs, queue_contents q1)"
    by (rule fifo)
  show "queue_contents q @ accepted ops obs = delivered obs @ queue_contents q1"
    using fifo by (rule fifo_run_law)
  show "wf_queue q1"
    using rep1 by (rule represents_wf)
next
  assume a: "wf_queue q \<and> list_all nonblocking ops"
  then have rep: "represents q (queue_contents q)"
    by (simp add: wf_represents)
  from a obtain obs1 ys where "fifo_run (unat (size_q q)) (queue_contents q) ops = Returns (obs1, ys)"
    using fifo_run_nonblocking by blast
  with run_ops_from_fifo [OF rep] show "\<exists>obs1 q2. run_ops q ops = Returns (obs1, q2)"
    by blast
qed

theorem queue_is_fifo_witness:
  "wf_queue \<lparr>lock = False, size_q = 2, front = 1, back_q = 1,
             messages = Some [None, None :: nat option]\<rparr> \<and>
   run_ops \<lparr>lock = False, size_q = 2, front = 1, back_q = 1, messages = Some [None, None]\<rparr>
     [Push (5::nat) 1, Push 6 0, Push 7 1, Pop 0, Push 8 1, Pop 1, Pop 1, Pop 1]
     = Returns ([Pushed 0, Pushed 0, Pushed (- 3), Popped 0 (Some 5), Pushed 0,
                 Popped 0 (Some 6), Popped 0 (Some 8), Popped (- 3) None],
                \<lparr>lock = False, size_q = 2, front = 0, back_q = 0, messages = Some [None, None]\<rparr>) \<and>
   delivered [Pushed 0, Pushed 0, Pushed (- 3), Popped 0 (Some 5), Pushed 0,
              Popped 0 (Some 6), Popped 0 (Some 8), Popped (- 3) None] = [5, 6, 8 :: nat] \<and>
   accepted [Push (5::nat) 1, Push 6 0, Push 7 1, Pop 0, Push 8 1, Pop 1, Pop 1, Pop 1]
            [Pushed 0, Pushed 0, Pushed (- 3), Popped 0 (Some 5), Pushed 0,
             Popped 0 (Some 6), Popped 0 (Some 8), Popped (- 3) None] = [5, 6, 8] \<and>
   wf_queue \<lparr>lock = False, size_q = 2, front = 0, back_q = 0,
             messages = Some [None, None :: nat option]\<rparr>"
proof -
  have h1: "wf_queue \<lparr>lock = False, size_q = 2, front = 1, back_q = 1,
             messages = Some [None, None :: nat option]\<rparr>"
    by code_simp
  have h2: "run_ops \<lparr>lock = False, size_q = 2, front = 1, back_q = 1, messages = Some [None, None]\<rparr>
     [Push (5::nat) 1, Push 6 0, Push 7 1, Pop 0, Push 8 1, Pop 1, Pop 1, Pop 1]
     = Returns ([Pushed 0, Pushed 0, Pushed (- 3), Popped 0 (Some 5), Pushed 0,
                 Popped 0 (Some 6), Popped 0 (Some 8), Popped (- 3) None],
                \<lparr>lock = False, size_q = 2, front = 0, back_q = 0, messages = Some [None, None]\<rparr>)"
    by code_simp
  have h3: "delivered [Pushed 0, Pushed 0, Pushed (- 3), Popped 0 (Some 5), Pushed 0,
              Popped 0 (Some 6), Popped 0 (Some 8), Popped (- 3) None] = [5, 6, 8 :: nat]"
    by simp
  have h4: "accepted [Push (5::nat) 1, Push 6 0, Push 7 1, Pop 0, Push 8 1, Pop 1, Pop 1, Pop 1]
            [Pushed 0, Pushed 0, Pushed (- 3), Popped 0 (Some 5), Pushed 0,
             Popped 0 (Some 6), Popped 0 (Some 8), Popped (- 3) None] = [5, 6, 8]"
    by simp
  from queue_is_fifo
    [where q = "\<lparr>lock = False, size_q = 2, front = 1, back_q = 1,
                  messages = Some [None, None :: nat option]\<rparr>"
       and ops = "[Push (5::nat) 1, Push 6 0, Push 7 1, Pop 0, Push 8 1, Pop 1, Pop 1, Pop 1]"]
    h1 h2
  have h5: "wf_queue \<lparr>lock = False, size_q = 2, front = 0, back_q = 0,
             messages = Some [None, None :: nat option]\<rparr>"
    by blast
  from h1 h2 h3 h4 h5 show ?thesis
    by blast
qed

text \<open>
  Claim C9. In every queue state, a push that answers \<open>-2\<close> (mutex busy) or \<open>-3\<close> (full)
  and a pop that answers \<open>-2\<close> or \<open>-3\<close> (empty) return the queue as it was, lock, size,
  indices and every slot; the pop leaves the caller's variable as it was. The pushed
  message is neither stored nor released, so it remains the caller's.
\<close>

theorem failed_calls_leave_queue_unchanged:
  "(insertModuleMessage mq msg noblock = Returns (rc, mq1) \<and> (rc = - 2 \<or> rc = - 3)
      \<longrightarrow> mq1 = mq) \<and>
   (removeModuleMessage mq out noblock = Returns (rc, mq2, out2) \<and> (rc = - 2 \<or> rc = - 3)
      \<longrightarrow> mq2 = mq \<and> out2 = out)"
  by (auto simp: insertModuleMessage_def removeModuleMessage_def
           split: option.splits if_splits)

theorem failed_calls_leave_queue_unchanged_witness:
  "insertModuleMessage
     (Some \<lparr>lock = False, size_q = 1, front = 0, back_q = 0, messages = Some [Some (4::nat)]\<rparr>)
     (Some 5) MOD_MSGQ_NOBLOCK
     = Returns (- 3, Some \<lparr>lock = False, size_q = 1, front = 0, back_q = 0,
                            messages = Some [Some 4]\<rparr>) \<and>
   removeModuleMessage
     (Some \<lparr>lock = True, size_q = 1, front = 0, back_q = 0, messages = Some [Some (4::nat)]\<rparr>)
     (Some None) MOD_MSGQ_NOBLOCK
     = Returns (- 2, Some \<lparr>lock = True, size_q = 1, front = 0, back_q = 0,
                            messages = Some [Some 4]\<rparr>, Some None)"
proof -
  obtain rc mq1 where ins: "insertModuleMessage
     (Some \<lparr>lock = False, size_q = 1, front = 0, back_q = 0, messages = Some [Some (4::nat)]\<rparr>)
     (Some 5) MOD_MSGQ_NOBLOCK = Returns (rc, mq1)" and rc: "rc = - 3"
    by (simp add: insertModuleMessage_def slot_def MOD_MSGQ_NOBLOCK_def)
  obtain rc2 mq2 out2 where rem: "removeModuleMessage
     (Some \<lparr>lock = True, size_q = 1, front = 0, back_q = 0, messages = Some [Some (4::nat)]\<rparr>)
     (Some None) MOD_MSGQ_NOBLOCK = Returns (rc2, mq2, out2)" and rc2: "rc2 = - 2"
    by (simp add: removeModuleMessage_def MOD_MSGQ_NOBLOCK_def)
  from failed_calls_leave_queue_unchanged
    [where mq = "Some \<lparr>lock = False, size_q = 1, front = 0, back_q = 0, messages = Some [Some (4::nat)]\<rparr>"
       and msg = "Some 5" and noblock = MOD_MSGQ_NOBLOCK and rc = rc and ?mq1.0 = mq1] ins rc
  have a: "mq1 = Some \<lparr>lock = False, size_q = 1, front = 0, back_q = 0, messages = Some [Some (4::nat)]\<rparr>"
    by blast
  from failed_calls_leave_queue_unchanged
    [where mq = "Some \<lparr>lock = True, size_q = 1, front = 0, back_q = 0, messages = Some [Some (4::nat)]\<rparr>"
       and out = "Some None" and noblock = MOD_MSGQ_NOBLOCK and rc = rc2 and ?mq2.0 = mq2
       and ?out2.0 = out2] rem rc2
  have b: "mq2 = Some \<lparr>lock = True, size_q = 1, front = 0, back_q = 0, messages = Some [Some (4::nat)]\<rparr> \<and> out2 = Some None"
    by blast
  from ins rc a rem rc2 b show ?thesis
    by simp
qed

section \<open>Creation and the bounds of the indices\<close>

declare drain.simps [simp del]

lemma index_inv_slot:
  assumes "index_inv q" "i < size_q q"
  shows "\<exists>s. slot q i = Some s"
  using assms by (auto simp: index_inv_def slot_def word_less_nat_alt split: option.splits)

lemma index_inv_nonzero: "index_inv q \<Longrightarrow> size_q q \<noteq> 0"
  by (auto simp: index_inv_def split: option.splits)

lemma index_inv_store_front:
  assumes "index_inv q"
  shows "index_inv (store_front q m)"
  using assms next_index_less [OF index_inv_nonzero [OF assms], of "front q"]
  by (auto simp: index_inv_def store_front_def set_slot_def split: option.splits)

lemma index_inv_clear_back:
  assumes "index_inv q"
  shows "index_inv (clear_back q)"
  using assms next_index_less [OF index_inv_nonzero [OF assms], of "back_q q"]
  by (auto simp: index_inv_def clear_back_def set_slot_def split: option.splits)

lemma drain_index_inv:
  "index_inv q \<Longrightarrow> \<exists>q1. drain q = Returns q1 \<and> index_inv q1"
proof (induction q rule: drain.induct)
  case (1 q)
  from "1.prems" have "back_q q < size_q q"
    by (auto simp: index_inv_def split: option.splits)
  with "1.prems" obtain s where s: "slot q (back_q q) = Some s"
    using index_inv_slot by blast
  show ?case
  proof (cases s)
    case None
    with s "1.prems" show ?thesis
      by (subst drain.simps) simp
  next
    case (Some m)
    have "index_inv (clear_back q)"
      using "1.prems" by (rule index_inv_clear_back)
    with "1.IH" [OF s Some] obtain q1 where "drain (clear_back q) = Returns q1" "index_inv q1"
      by blast
    with s Some show ?thesis
      by (subst drain.simps) simp
  qed
qed

text \<open>
  Claim C5. Creation with a capacity that is zero or no power of two answers \<open>-1\<close> and
  leaves the queue object untouched, so no buffer is attached to it; this holds for 0,
  3, 5, 6 and 100. With the allocation and the pthread calls succeeding, creation
  answers 0 for 1, 2, 4, 16 and 1024, and for every \<open>2 ^ n\<close> that fits \<open>size_t\<close>.
\<close>

theorem create_validates_capacity:
  "((sz = 0 \<or> (\<forall>n<64. sz \<noteq> 2 ^ n)) \<longrightarrow>
      initModuleMessageQueue (Some q0) sz env = (- 1, Some q0)) \<and>
   (\<forall>c \<in> {0, 3, 5, 6, 100}. initModuleMessageQueue (Some q0) c env = (- 1, Some q0)) \<and>
   (resources_available env \<longrightarrow>
      (\<forall>c \<in> {1, 2, 4, 16, 1024}. fst (initModuleMessageQueue (Some q0) c env) = 0)) \<and>
   (n < 64 \<and> resources_available env \<longrightarrow>
      fst (initModuleMessageQueue (Some q0) (2 ^ n) env) = 0)"
proof (intro conjI impI)
  assume bad: "sz = 0 \<or> (\<forall>n<64. sz \<noteq> 2 ^ n)"
  have "\<not> (sz \<noteq> 0 \<and> sz AND (sz - 1) = 0)"
    using bad word_pow2 [of sz] by blast
  then show "initModuleMessageQueue (Some q0) sz env = (- 1, Some q0)"
    by (auto simp: initModuleMessageQueue_def)
next
  show "\<forall>c \<in> {0, 3, 5, 6, 100}. initModuleMessageQueue (Some q0) c env = (- 1, Some q0)"
    by (simp add: initModuleMessageQueue_def)
next
  assume "resources_available env"
  then show "\<forall>c \<in> {1, 2, 4, 16, 1024}. fst (initModuleMessageQueue (Some q0) c env) = 0"
    by (simp add: initModuleMessageQueue_def resources_available_def)
next
  assume "n < 64 \<and> resources_available env"
  then show "fst (initModuleMessageQueue (Some q0) (2 ^ n) env) = 0"
    using pow2_test [of n]
    by (simp add: initModuleMessageQueue_def resources_available_def)
qed

theorem create_validates_capacity_witness:
  "((3::size_t) = 0 \<or> (\<forall>n<64. (3::size_t) \<noteq> 2 ^ n)) \<and>
   initModuleMessageQueue
     (Some \<lparr>lock = True, size_q = 0, front = 7, back_q = 9, messages = (None :: nat option list option)\<rparr>) 3
     \<lparr>calloc_ok = True, mutexattr_init_rc = 0, mutexattr_settype_rc = 0, mutex_init_rc = 0,
      condattr_init_rc = 0, cond_init_rc = 0\<rparr>
     = (- 1, Some \<lparr>lock = True, size_q = 0, front = 7, back_q = 9, messages = None\<rparr>) \<and>
   resources_available
     \<lparr>calloc_ok = True, mutexattr_init_rc = 0, mutexattr_settype_rc = 0, mutex_init_rc = 0,
      condattr_init_rc = 0, cond_init_rc = 0\<rparr> \<and>
   (4::nat) < 64 \<and>
   fst (initModuleMessageQueue
     (Some \<lparr>lock = True, size_q = 0, front = 7, back_q = 9, messages = (None :: nat option list option)\<rparr>) (2 ^ 4)
     \<lparr>calloc_ok = True, mutexattr_init_rc = 0, mutexattr_settype_rc = 0, mutex_init_rc = 0,
      condattr_init_rc = 0, cond_init_rc = 0\<rparr>) = 0"
proof -
  have three: "(3::size_t) AND (3 - 1) \<noteq> 0" by simp
  have h1: "(3::size_t) = 0 \<or> (\<forall>n<64. (3::size_t) \<noteq> 2 ^ n)"
  proof -
    have "(3::size_t) \<noteq> 2 ^ n" if "n < 64" for n
    proof
      assume "(3::size_t) = 2 ^ n"
      with pow2_test(2) [OF that] three show False by simp
    qed
    then show ?thesis by blast
  qed
  have h2: "resources_available
     \<lparr>calloc_ok = True, mutexattr_init_rc = 0, mutexattr_settype_rc = 0, mutex_init_rc = 0,
      condattr_init_rc = 0, cond_init_rc = 0\<rparr>"
    by (simp add: resources_available_def)
  have h3: "(4::nat) < 64" by simp
  from create_validates_capacity
    [of 3 "\<lparr>lock = True, size_q = 0, front = 7, back_q = 9, messages = (None :: nat option list option)\<rparr>"
        "\<lparr>calloc_ok = True, mutexattr_init_rc = 0, mutexattr_settype_rc = 0, mutex_init_rc = 0,
          condattr_init_rc = 0, cond_init_rc = 0\<rparr>" 4]
    h1 h2 h3
  show ?thesis
    by blast
qed

text \<open>
  Claim C10. After a successful initialisation \<open>front\<close> and \<open>back\<close> are below the size,
  which is the length of the buffer. From such a state the advanced indices are again
  below the size, a push, a pop, a round of the drain loop and the whole drain keep the
  invariant, and no operation reads or writes outside the buffer.
\<close>

theorem queue_indices_stay_in_bounds:
  "(initModuleMessageQueue (Some q0) sz env = (0, Some q) \<longrightarrow> index_inv q) \<and>
   (index_inv q \<longrightarrow>
      next_index q (front q) < size_q q \<and> next_index q (back_q q) < size_q q \<and>
      insertModuleMessage (Some q) msg noblock \<noteq> Undefined \<and>
      (\<forall>rc q1. insertModuleMessage (Some q) msg noblock = Returns (rc, Some q1) \<longrightarrow> index_inv q1) \<and>
      removeModuleMessage (Some q) out noblock \<noteq> Undefined \<and>
      (\<forall>rc q1 out1. removeModuleMessage (Some q) out noblock = Returns (rc, Some q1, out1)
          \<longrightarrow> index_inv q1) \<and>
      index_inv (clear_back q) \<and>
      (\<exists>q1. drain q = Returns q1 \<and> index_inv q1) \<and>
      deinitModuleMessageQueue (Some q) denv \<noteq> Undefined)"
proof (intro conjI impI)
  assume "initModuleMessageQueue (Some q0) sz env = (0, Some q)"
  then show "index_inv q"
    by (auto simp: initModuleMessageQueue_def index_inv_def Let_def word_neq_0_conv
             split: if_splits)
next
  assume inv: "index_inv q"
  then have nz: "size_q q \<noteq> 0" by (rule index_inv_nonzero)
  from inv have fb: "front q < size_q q" "back_q q < size_q q"
    by (auto simp: index_inv_def split: option.splits)
  obtain sf sb where sf: "slot q (front q) = Some sf" and sb: "slot q (back_q q) = Some sb"
    using index_inv_slot [OF inv] fb by blast
  show "next_index q (front q) < size_q q" "next_index q (back_q q) < size_q q"
    using nz by (rule next_index_less)+
  show "insertModuleMessage (Some q) msg noblock \<noteq> Undefined"
    using sf by (simp add: insertModuleMessage_def split: option.splits)
  show "\<forall>rc q1. insertModuleMessage (Some q) msg noblock = Returns (rc, Some q1) \<longrightarrow> index_inv q1"
    using inv index_inv_store_front [OF inv]
    by (auto simp: insertModuleMessage_def split: option.splits if_splits)
  show "removeModuleMessage (Some q) out noblock \<noteq> Undefined"
    using sb by (simp add: removeModuleMessage_def split: option.splits)
  show "\<forall>rc q1 out1. removeModuleMessage (Some q) out noblock = Returns (rc, Some q1, out1)
          \<longrightarrow> index_inv q1"
    using inv index_inv_clear_back [OF inv]
    by (auto simp: removeModuleMessage_def split: option.splits if_splits)
  show "index_inv (clear_back q)"
    using inv by (rule index_inv_clear_back)
  show "\<exists>q1. drain q = Returns q1 \<and> index_inv q1"
    using inv by (rule drain_index_inv)
  then show "deinitModuleMessageQueue (Some q) denv \<noteq> Undefined"
    by (auto simp: deinitModuleMessageQueue_def Let_def)
qed

theorem queue_indices_stay_in_bounds_witness:
  "initModuleMessageQueue
     (Some \<lparr>lock = True, size_q = 0, front = 7, back_q = 9, messages = None\<rparr>) 2
     \<lparr>calloc_ok = True, mutexattr_init_rc = 0, mutexattr_settype_rc = 0, mutex_init_rc = 0,
      condattr_init_rc = 0, cond_init_rc = 0\<rparr>
     = (0, Some \<lparr>lock = False, size_q = 2, front = 0, back_q = 0,
                 messages = Some [None, None :: nat option]\<rparr>) \<and>
   index_inv \<lparr>lock = False, size_q = 2, front = 0, back_q = 0,
              messages = Some [None, None :: nat option]\<rparr> \<and>
   index_inv \<lparr>lock = False, size_q = 2, front = 1, back_q = 1,
              messages = Some [Some 3, Some (4 :: nat)]\<rparr> \<and>
   insertModuleMessage
     (Some \<lparr>lock = False, size_q = 2, front = 1, back_q = 1, messages = Some [Some 3, Some 4]\<rparr>)
     (Some (5::nat)) MOD_MSGQ_NOBLOCK \<noteq> Undefined \<and>
   removeModuleMessage
     (Some \<lparr>lock = False, size_q = 2, front = 1, back_q = 1, messages = Some [Some 3, Some (4::nat)]\<rparr>)
     (Some None) MOD_MSGQ_NOBLOCK \<noteq> Undefined \<and>
   index_inv (clear_back \<lparr>lock = False, size_q = 2, front = 1, back_q = 1,
                          messages = Some [Some 3, Some (4 :: nat)]\<rparr>) \<and>
   (\<exists>q1. drain \<lparr>lock = False, size_q = 2, front = 1, back_q = 1,
                  messages = Some [Some 3, Some (4 :: nat)]\<rparr> = Returns q1 \<and> index_inv q1)"
proof -
  have h1: "initModuleMessageQueue
     (Some \<lparr>lock = True, size_q = 0, front = 7, back_q = 9, messages = None\<rparr>) 2
     \<lparr>calloc_ok = True, mutexattr_init_rc = 0, mutexattr_settype_rc = 0, mutex_init_rc = 0,
      condattr_init_rc = 0, cond_init_rc = 0\<rparr>
     = (0, Some \<lparr>lock = False, size_q = 2, front = 0, back_q = 0,
                 messages = Some [None, None :: nat option]\<rparr>)"
    by code_simp
  have h2: "index_inv \<lparr>lock = False, size_q = 2, front = 1, back_q = 1,
              messages = Some [Some 3, Some (4 :: nat)]\<rparr>"
    by code_simp
  note inst = queue_indices_stay_in_bounds
    [where q = "\<lparr>lock = False, size_q = 2, front = 1, back_q = 1,
                  messages = Some [Some 3, Some (4 :: nat)]\<rparr>"
       and msg = "Some 5" and out = "Some None" and noblock = MOD_MSGQ_NOBLOCK]
  note inst0 = queue_indices_stay_in_bounds
    [where q = "\<lparr>lock = False, size_q = 2, front = 0, back_q = 0,
                  messages = Some [None, None :: nat option]\<rparr>"
       and ?q0.0 = "\<lparr>lock = True, size_q = 0, front = 7, back_q = 9, messages = None\<rparr>"
       and sz = 2
       and env = "\<lparr>calloc_ok = True, mutexattr_init_rc = 0, mutexattr_settype_rc = 0,
                   mutex_init_rc = 0, condattr_init_rc = 0, cond_init_rc = 0\<rparr>"]
  from inst0 h1 have h3: "index_inv \<lparr>lock = False, size_q = 2, front = 0, back_q = 0,
              messages = Some [None, None :: nat option]\<rparr>"
    by blast
  from inst h2 h1 h3 show ?thesis
    by blast
qed

section \<open>Bytes and words\<close>

lemma le_word_le_bytes: "le_word (le_bytes w) = w"
proof (rule bit_word_eqI)
  fix n assume "n < LENGTH(32)"
  then consider "n < 8" | "8 \<le> n" "n < 16" | "16 \<le> n" "n < 24" | "24 \<le> n" "n < 32"
    by fastforce
  then show "bit (le_word (le_bytes w)) n = bit w n"
    by cases (auto simp: le_bytes_def bit_simps le_add_diff_inverse)
qed

lemma le_bytes_le_word4:
  "le_bytes (le_word [b0, b1, b2, b3]) = [b0, b1, b2, b3]"
proof -
  have "ucast (le_word [b0, b1, b2, b3]) = b0"
    by (rule bit_word_eqI) (auto simp: bit_simps dest: bit_imp_le_length)
  moreover have "ucast (drop_bit 8 (le_word [b0, b1, b2, b3])) = b1"
    by (rule bit_word_eqI) (auto simp: bit_simps dest: bit_imp_le_length)
  moreover have "ucast (drop_bit 16 (le_word [b0, b1, b2, b3])) = b2"
    by (rule bit_word_eqI) (auto simp: bit_simps dest: bit_imp_le_length)
  moreover have "ucast (drop_bit 24 (le_word [b0, b1, b2, b3])) = b3"
    by (rule bit_word_eqI) (auto simp: bit_simps dest: bit_imp_le_length)
  ultimately show ?thesis
    by (simp only: le_bytes_def)
qed

lemma length_bytes_of_u32 [simp]: "length (bytes_of_u32 e w) = 4"
  by (cases e) (simp_all add: bytes_of_u32_def le_bytes_def)

lemma u32_of_bytes_of_u32 [simp]: "u32_of_bytes e (bytes_of_u32 e w) = w"
  by (cases e) (simp_all add: bytes_of_u32_def u32_of_bytes_def le_word_le_bytes)

lemma bytes_of_u32_of_bytes:
  assumes "length bs = 4"
  shows "bytes_of_u32 e (u32_of_bytes e bs) = bs"
proof -
  from assms obtain b0 b1 b2 b3 where bs: "bs = [b0, b1, b2, b3]"
    by (auto simp: length_Suc_conv eval_nat_numeral)
  show ?thesis
    by (cases e) (simp_all add: bs bytes_of_u32_def u32_of_bytes_def le_bytes_le_word4 del: le_word.simps)
qed

lemma field_0 [simp]: "field e (bytes_of_u32 e a @ rest) 0 = a"
  by (simp add: field_def)

lemma field_1 [simp]:
  "field e (bytes_of_u32 e a @ bytes_of_u32 e b @ rest) (Suc 0) = b"
  "field e (bytes_of_u32 e a @ bytes_of_u32 e b) (Suc 0) = b"
  by (simp_all add: field_def)

lemma bytes_of_fields_simps [simp]:
  "bytes_of_fields e [] = []"
  "bytes_of_fields e (w # ws) = bytes_of_u32 e w @ bytes_of_fields e ws"
  by (simp_all add: bytes_of_fields_def)

lemma insert_blocking_room:
  assumes "wf_queue q" "length (queue_contents q) < unat (size_q q)"
  shows "insert_blocking q (Some m) = Returns (store_front q m)"
    and "wf_queue (store_front q m)"
    and "queue_contents (store_front q m) = queue_contents q @ [m]"
    and "size_q (store_front q m) = size_q q"
proof -
  have rep: "represents q (queue_contents q)"
    using assms(1) by (rule wf_represents)
  show "insert_blocking q (Some m) = Returns (store_front q m)"
    using insert_room [OF rep assms(2)] by (simp add: insert_blocking_def)
  have rep1: "represents (store_front q m) (queue_contents q @ [m])"
    using rep assms(2) by (rule represents_store_front)
  then show "wf_queue (store_front q m)"
    by (rule represents_wf)
  from rep1 show "queue_contents (store_front q m) = queue_contents q @ [m]"
    by (rule represents_contents)
  show "size_q (store_front q m) = size_q q"
    by simp
qed

lemma insert_blocking_full:
  assumes "wf_queue q" "length (queue_contents q) = unat (size_q q)"
  shows "insert_blocking q (Some m) = Blocks"
proof -
  have rep: "represents q (queue_contents q)"
    using assms(1) by (rule wf_represents)
  show ?thesis
    using insert_full [OF rep assms(2)] by (simp add: insert_blocking_def MOD_MSGQ_BLOCK_def)
qed

section \<open>The stream request across the wire\<close>

lemma requestStream_send_ok:
  "0 \<le> socketFd \<Longrightarrow>
   requestStream_send e socketFd True port 8 4 =
     (Inr (), bytes_of_fields e [MOD_NAME_STREAM, MOD_MSG_CODE_STREAM_REQ, port])"
  by (simp add: requestStream_send_def as_size_t_def Let_def)

lemma inputMessageHandler_request:
  assumes "0 \<le> sockFd" "wf_queue sq" "length (queue_contents sq) < unat (size_q sq)"
  shows "inputMessageHandler e sockFd
           \<lparr>pending = bytes_of_fields e [MOD_NAME_STREAM, MOD_MSG_CODE_STREAM_REQ, port],
            peer_closed = c\<rparr> True sq
         = Returns (0, \<lparr>pending = [], peer_closed = c\<rparr>,
                    store_front sq \<lparr>address = MOD_NAME_STREAM, code = MOD_MSG_CODE_STREAM_REQ,
                                   data = port\<rparr>)"
proof -
  have net: "networkToStreamMessage e sockFd \<lparr>pending = bytes_of_u32 e port, peer_closed = c\<rparr>
               MOD_MSG_CODE_STREAM_REQ True sq
             = Returns (0, \<lparr>pending = [], peer_closed = c\<rparr>,
                    store_front sq \<lparr>address = MOD_NAME_STREAM, code = MOD_MSG_CODE_STREAM_REQ,
                                   data = port\<rparr>)"
    using assms(1) insert_blocking_room(1) [OF assms(2,3)]
    by (simp add: networkToStreamMessage_def recvTimeout_def fill_def as_size_t_def Let_def
          length_0_conv [symmetric] del: length_0_conv)
  show ?thesis
    using assms(1)
    by (simp add: inputMessageHandler_def recvTimeout_def fill_def Let_def net
          length_0_conv [symmetric] del: length_0_conv)
qed

text \<open>
  Claim C7. A stream request with any port, sent by ground control's \<open>requestStream\<close>
  as header and port, and read by the drone's \<open>inputMessageHandler\<close> on a host of the
  same byte order, puts on the stream queue the message with address \<open>MOD_NAME_STREAM\<close>,
  code \<open>MOD_MSG_CODE_STREAM_REQ\<close> and that port, and consumes exactly these bytes.
  Sending the decoded message's port again gives the same bytes.
\<close>

theorem stream_request_roundtrip:
  assumes "0 \<le> socketFd" and "0 \<le> sockFd"
    and "wf_queue sq" and "length (queue_contents sq) < unat (size_q sq)"
  shows "\<exists>wire sq1 decoded.
           requestStream_send e socketFd True port 8 4 = (Inr (), wire) \<and>
           wire = bytes_of_fields e [MOD_NAME_STREAM, MOD_MSG_CODE_STREAM_REQ, port] \<and>
           inputMessageHandler e sockFd \<lparr>pending = wire, peer_closed = c\<rparr> True sq
             = Returns (0, \<lparr>pending = [], peer_closed = c\<rparr>, sq1) \<and>
           queue_contents sq1 = queue_contents sq @ [decoded] \<and>
           decoded = \<lparr>address = MOD_NAME_STREAM, code = MOD_MSG_CODE_STREAM_REQ, data = port\<rparr> \<and>
           requestStream_send e socketFd True (data decoded) 8 4 = (Inr (), wire)"
  using requestStream_send_ok [OF assms(1)] inputMessageHandler_request [OF assms(2,3,4)]
    insert_blocking_room(3) [OF assms(3,4)]
  by simp

theorem stream_request_roundtrip_witness:
  "(0::int) \<le> 4 \<and> (0::int) \<le> 3 \<and>
   wf_queue \<lparr>lock = False, size_q = 2, front = 0, back_q = 0,
             messages = Some [None, None :: ModuleMessage option]\<rparr> \<and>
   length (queue_contents \<lparr>lock = False, size_q = 2, front = 0, back_q = 0,
             messages = Some [None, None :: ModuleMessage option]\<rparr>)
     < unat (size_q \<lparr>lock = False, size_q = 2, front = 0, back_q = 0,
             messages = Some [None, None :: ModuleMessage option]\<rparr>) \<and>
   (\<exists>sq1. inputMessageHandler LittleEndian 3
            \<lparr>pending = [2, 0, 0, 0, 3, 0, 0, 0, 0x88, 0x13, 0, 0], peer_closed = False\<rparr> True
            \<lparr>lock = False, size_q = 2, front = 0, back_q = 0, messages = Some [None, None]\<rparr>
          = Returns (0, \<lparr>pending = [], peer_closed = False\<rparr>, sq1) \<and>
          queue_contents sq1 =
            [\<lparr>address = MOD_NAME_STREAM, code = MOD_MSG_CODE_STREAM_REQ, data = 5000\<rparr>]) \<and>
   requestStream_send LittleEndian 4 True 5000 8 4
     = (Inr (), [2, 0, 0, 0, 3, 0, 0, 0, 0x88, 0x13, 0, 0])"
proof -
  have h1: "(0::int) \<le> 4" and h2: "(0::int) \<le> 3"
    by simp_all
  have h3: "wf_queue \<lparr>lock = False, size_q = 2, front = 0, back_q = 0,
             messages = Some [None, None :: ModuleMessage option]\<rparr>"
    by code_simp
  have h4: "length (queue_contents \<lparr>lock = False, size_q = 2, front = 0, back_q = 0,
             messages = Some [None, None :: ModuleMessage option]\<rparr>)
     < unat (size_q \<lparr>lock = False, size_q = 2, front = 0, back_q = 0,
             messages = Some [None, None :: ModuleMessage option]\<rparr>)"
    by code_simp
  have h5: "queue_contents \<lparr>lock = False, size_q = 2, front = 0, back_q = 0,
             messages = Some [None, None :: ModuleMessage option]\<rparr> = []"
    by code_simp
  have wire: "bytes_of_fields LittleEndian [MOD_NAME_STREAM, MOD_MSG_CODE_STREAM_REQ, 5000]
        = [2, 0, 0, 0, 3, 0, 0, 0, 0x88, 0x13, 0, 0]"
    by code_simp
  from stream_request_roundtrip [OF h1 h2 h3 h4, of LittleEndian 5000 False, unfolded wire h5]
    h1 h2 h3 h4
  show ?thesis
    by (elim exE conjE) simp
qed

section \<open>The control loop and its table\<close>

lemma controller_entry:
  "nextState (initStreamController zeroed_controller (s, ev)) = fst (spec_transition s ev)"
  "eventHandler (initStreamController zeroed_controller (s, ev))
     = Some (handler_named (snd (spec_transition s ev)))"
  by (cases s; cases ev; simp add: initStreamController_def)+

lemma remove_blocking_head:
  assumes "wf_queue q" "queue_contents q = m # rest"
  shows "removeModuleMessage (Some q) (Some cur) MOD_MSGQ_BLOCK
           = Returns (0, Some (clear_back q), Some (Some m))"
    and "wf_queue (clear_back q)"
    and "queue_contents (clear_back q) = rest"
proof -
  have rep: "represents q (m # rest)"
    using wf_represents [OF assms(1)] assms(2) by simp
  show "removeModuleMessage (Some q) (Some cur) MOD_MSGQ_BLOCK
           = Returns (0, Some (clear_back q), Some (Some m))"
    using rep by (rule remove_some)
  have rep1: "represents (clear_back q) rest"
    using rep by (rule represents_clear_back)
  then show "wf_queue (clear_back q)"
    by (rule represents_wf)
  from rep1 show "queue_contents (clear_back q) = rest"
    by (rule represents_contents)
qed

lemma round_dispatch:
  assumes "wf_queue (sc_streamMsgq sc)" "queue_contents (sc_streamMsgq sc) = m # rest"
    and "event_of_code (code m) = Some ev"
  shows "threadFuncStreamControl_round sc =
     (case handler_named (snd (spec_transition (sc_state sc) ev))
             (Some (Some m)) (Some (sc_pipeline sc)) (sc_globals sc) of
        Undefined \<Rightarrow> Undefined
      | Blocks \<Rightarrow> Blocks
      | Returns (message1, pipeline1, g1) \<Rightarrow>
          Returns (sc\<lparr>sc_state := fst (spec_transition (sc_state sc) ev),
                      sc_message := (case message1 of Some cur \<Rightarrow> cur | None \<Rightarrow> Some m),
                      sc_pipeline := (case pipeline1 of Some p \<Rightarrow> p | None \<Rightarrow> sc_pipeline sc),
                      sc_streamMsgq := clear_back (sc_streamMsgq sc),
                      sc_globals := g1\<rparr>))"
  using remove_blocking_head(1) [OF assms(1,2), of "sc_message sc"] assms(3)
  by (cases sc)
     (simp add: threadFuncStreamControl_round_def Let_def controller_entry
        split: outcome.splits prod.splits option.splits)

text \<open>
  Claim C2. The table filled by \<open>initStreamController\<close> is the specification's table:
  for each of the eight pairs of state and event its entry has the specified next state
  and the handler the specification names. One round of the control loop on a delivered
  message runs the handler of its entry and moves to the next state of its entry. In
  standby a stream-stop runs \<open>emptyHandler\<close>, which releases the message and requests no
  state change of the pipeline: the round leaves state, pipeline and globals as they were.
\<close>

theorem stream_controller_implements_table:
  "(\<forall>s ev.
      nextState (initStreamController zeroed_controller (s, ev)) = fst (spec_transition s ev) \<and>
      eventHandler (initStreamController zeroed_controller (s, ev))
        = Some (handler_named (snd (spec_transition s ev)))) \<and>
   nextState (initStreamController zeroed_controller
     (STREAM_STATE_STANDBY, STREAM_EVENT_STREAM_REQ)) = STREAM_STATE_STANDBY \<and>
   nextState (initStreamController zeroed_controller
     (STREAM_STATE_STANDBY, STREAM_EVENT_STREAM_START)) = STREAM_STATE_PLAYING \<and>
   nextState (initStreamController zeroed_controller
     (STREAM_STATE_STANDBY, STREAM_EVENT_STREAM_STOP)) = STREAM_STATE_STANDBY \<and>
   nextState (initStreamController zeroed_controller
     (STREAM_STATE_STANDBY, STREAM_EVENT_PIPE_ERROR)) = STREAM_STATE_STANDBY \<and>
   nextState (initStreamController zeroed_controller
     (STREAM_STATE_PLAYING, STREAM_EVENT_STREAM_REQ)) = STREAM_STATE_PLAYING \<and>
   nextState (initStreamController zeroed_controller
     (STREAM_STATE_PLAYING, STREAM_EVENT_STREAM_START)) = STREAM_STATE_PLAYING \<and>
   nextState (initStreamController zeroed_controller
     (STREAM_STATE_PLAYING, STREAM_EVENT_STREAM_STOP)) = STREAM_STATE_STANDBY \<and>
   nextState (initStreamController zeroed_controller
     (STREAM_STATE_PLAYING, STREAM_EVENT_PIPE_ERROR)) = STREAM_STATE_STANDBY \<and>
   eventHandler (initStreamController zeroed_controller
     (STREAM_STATE_STANDBY, STREAM_EVENT_STREAM_STOP)) = Some emptyHandler \<and>
   (\<forall>cur p g. emptyHandler (Some cur) (Some p) g = Returns (Some None, Some p, g)) \<and>
   (wf_queue (sc_streamMsgq sc) \<and> queue_contents (sc_streamMsgq sc) = m # rest \<and>
    event_of_code (code m) = Some ev \<longrightarrow>
      threadFuncStreamControl_round sc =
        (case handler_named (snd (spec_transition (sc_state sc) ev))
                (Some (Some m)) (Some (sc_pipeline sc)) (sc_globals sc) of
           Undefined \<Rightarrow> Undefined
         | Blocks \<Rightarrow> Blocks
         | Returns (message1, pipeline1, g1) \<Rightarrow>
             Returns (sc\<lparr>sc_state := fst (spec_transition (sc_state sc) ev),
                         sc_message := (case message1 of Some cur \<Rightarrow> cur | None \<Rightarrow> Some m),
                         sc_pipeline :=
                           (case pipeline1 of Some p \<Rightarrow> p | None \<Rightarrow> sc_pipeline sc),
                         sc_streamMsgq := clear_back (sc_streamMsgq sc),
                         sc_globals := g1\<rparr>))) \<and>
   (sc_state sc = STREAM_STATE_STANDBY \<and>
    wf_queue (sc_streamMsgq sc) \<and> queue_contents (sc_streamMsgq sc) = m # rest \<and>
    code m = MOD_MSG_CODE_STREAM_STOP \<longrightarrow>
      threadFuncStreamControl_round sc =
        Returns (sc\<lparr>sc_message := None, sc_streamMsgq := clear_back (sc_streamMsgq sc)\<rparr>))"
proof (intro conjI allI impI)
  fix s ev
  show "nextState (initStreamController zeroed_controller (s, ev)) = fst (spec_transition s ev)"
    by (rule controller_entry)
  show "eventHandler (initStreamController zeroed_controller (s, ev))
        = Some (handler_named (snd (spec_transition s ev)))"
    by (rule controller_entry)
next
  fix cur p g
  show "emptyHandler (Some cur) (Some p) g = Returns (Some None, Some p, g)"
    by (simp add: emptyHandler_def)
next
  assume "wf_queue (sc_streamMsgq sc) \<and> queue_contents (sc_streamMsgq sc) = m # rest \<and>
    event_of_code (code m) = Some ev"
  then show "threadFuncStreamControl_round sc =
        (case handler_named (snd (spec_transition (sc_state sc) ev))
                (Some (Some m)) (Some (sc_pipeline sc)) (sc_globals sc) of
           Undefined \<Rightarrow> Undefined
         | Blocks \<Rightarrow> Blocks
         | Returns (message1, pipeline1, g1) \<Rightarrow>
             Returns (sc\<lparr>sc_state := fst (spec_transition (sc_state sc) ev),
                         sc_message := (case message1 of Some cur \<Rightarrow> cur | None \<Rightarrow> Some m),
                         sc_pipeline :=
                           (case pipeline1 of Some p \<Rightarrow> p | None \<Rightarrow> sc_pipeline sc),
                         sc_streamMsgq := clear_back (sc_streamMsgq sc),
                         sc_globals := g1\<rparr>))"
    by (intro round_dispatch) simp_all
next
  assume a: "sc_state sc = STREAM_STATE_STANDBY \<and>
    wf_queue (sc_streamMsgq sc) \<and> queue_contents (sc_streamMsgq sc) = m # rest \<and>
    code m = MOD_MSG_CODE_STREAM_STOP"
  then have ev: "event_of_code (code m) = Some STREAM_EVENT_STREAM_STOP"
    by (simp add: event_of_code_def MOD_MSG_CODE_STREAM_STOP_def MOD_MSG_CODE_STREAM_START_def)
  from a round_dispatch [OF _ _ ev, of sc rest]
  show "threadFuncStreamControl_round sc =
        Returns (sc\<lparr>sc_message := None, sc_streamMsgq := clear_back (sc_streamMsgq sc)\<rparr>)"
    by (cases sc) (simp add: emptyHandler_def)
qed (simp_all add: controller_entry)

theorem stream_controller_implements_table_witness:
  "wf_queue \<lparr>lock = False, size_q = 2, front = 1, back_q = 0,
             messages = Some [Some \<lparr>address = 2, code = 6, data = 0\<rparr>, None]\<rparr> \<and>
   queue_contents \<lparr>lock = False, size_q = 2, front = 1, back_q = 0,
             messages = Some [Some \<lparr>address = 2, code = 6, data = 0\<rparr>, None]\<rparr>
     = [\<lparr>address = 2, code = 6, data = 0\<rparr>] \<and>
   code \<lparr>address = 2, code = 6, data = 0\<rparr> = MOD_MSG_CODE_STREAM_STOP \<and>
   threadFuncStreamControl_round
     \<lparr>sc_state = STREAM_STATE_STANDBY, sc_message = None,
      sc_pipeline = \<lparr>state_requests = [], sink_port = 0\<rparr>,
      sc_streamMsgq = \<lparr>lock = False, size_q = 2, front = 1, back_q = 0,
             messages = Some [Some \<lparr>address = 2, code = 6, data = 0\<rparr>, None]\<rparr>,
      sc_globals = \<lparr>networkMsgq = \<lparr>lock = False, size_q = 1, front = 0, back_q = 0,
                                     messages = Some [None]\<rparr>,
                    currentCodingFormat = 1, message_alloc_ok = True, netsink_found = True\<rparr>\<rparr>
   = Returns
     \<lparr>sc_state = STREAM_STATE_STANDBY, sc_message = None,
      sc_pipeline = \<lparr>state_requests = [], sink_port = 0\<rparr>,
      sc_streamMsgq = \<lparr>lock = False, size_q = 2, front = 1, back_q = 1,
             messages = Some [None, None]\<rparr>,
      sc_globals = \<lparr>networkMsgq = \<lparr>lock = False, size_q = 1, front = 0, back_q = 0,
                                     messages = Some [None]\<rparr>,
                    currentCodingFormat = 1, message_alloc_ok = True, netsink_found = True\<rparr>\<rparr>"
proof -
  have h1: "wf_queue \<lparr>lock = False, size_q = 2, front = 1, back_q = 0,
             messages = Some [Some \<lparr>address = 2, code = 6, data = 0\<rparr>, None]\<rparr>"
    by code_simp
  have h2: "queue_contents \<lparr>lock = False, size_q = 2, front = 1, back_q = 0,
             messages = Some [Some \<lparr>address = 2, code = 6, data = 0\<rparr>, None]\<rparr>
     = [\<lparr>address = 2, code = 6, data = 0\<rparr>]"
    by code_simp
  have h3: "code \<lparr>address = 2, code = 6, data = 0\<rparr> = MOD_MSG_CODE_STREAM_STOP"
    by (simp add: MOD_MSG_CODE_STREAM_STOP_def)
  have cb: "clear_back \<lparr>lock = False, size_q = 2, front = 1, back_q = 0,
             messages = Some [Some \<lparr>address = 2, code = 6, data = 0\<rparr>, None]\<rparr>
        = \<lparr>lock = False, size_q = 2, front = 1, back_q = 1, messages = Some [None, None]\<rparr>"
    by code_simp
  from stream_controller_implements_table
    [where sc = "\<lparr>sc_state = STREAM_STATE_STANDBY, sc_message = None,
      sc_pipeline = \<lparr>state_requests = [], sink_port = 0\<rparr>,
      sc_streamMsgq = \<lparr>lock = False, size_q = 2, front = 1, back_q = 0,
             messages = Some [Some \<lparr>address = 2, code = 6, data = 0\<rparr>, None]\<rparr>,
      sc_globals = \<lparr>networkMsgq = \<lparr>lock = False, size_q = 1, front = 0, back_q = 0,
                                     messages = Some [None]\<rparr>,
                    currentCodingFormat = 1, message_alloc_ok = True, netsink_found = True\<rparr>\<rparr>"
      and m = "\<lparr>address = 2, code = 6, data = 0\<rparr>" and rest = "[]"
      and ev = STREAM_EVENT_STREAM_STOP,
      THEN conjunct2, THEN conjunct2, THEN conjunct2, THEN conjunct2, THEN conjunct2,
      THEN conjunct2, THEN conjunct2, THEN conjunct2, THEN conjunct2, THEN conjunct2,
      THEN conjunct2, THEN conjunct2]
    h1 h2 h3
  have "threadFuncStreamControl_round
     \<lparr>sc_state = STREAM_STATE_STANDBY, sc_message = None,
      sc_pipeline = \<lparr>state_requests = [], sink_port = 0\<rparr>,
      sc_streamMsgq = \<lparr>lock = False, size_q = 2, front = 1, back_q = 0,
             messages = Some [Some \<lparr>address = 2, code = 6, data = 0\<rparr>, None]\<rparr>,
      sc_globals = \<lparr>networkMsgq = \<lparr>lock = False, size_q = 1, front = 0, back_q = 0,
                                     messages = Some [None]\<rparr>,
                    currentCodingFormat = 1, message_alloc_ok = True, netsink_found = True\<rparr>\<rparr>
   = Returns
     \<lparr>sc_state = STREAM_STATE_STANDBY, sc_message = None,
      sc_pipeline = \<lparr>state_requests = [], sink_port = 0\<rparr>,
      sc_streamMsgq = \<lparr>lock = False, size_q = 2, front = 1, back_q = 1,
             messages = Some [None, None]\<rparr>,
      sc_globals = \<lparr>networkMsgq = \<lparr>lock = False, size_q = 1, front = 0, back_q = 0,
                                     messages = Some [None]\<rparr>,
                    currentCodingFormat = 1, message_alloc_ok = True, netsink_found = True\<rparr>\<rparr>"
    by (simp add: cb MOD_MSG_CODE_STREAM_STOP_def)
  with h1 h2 h3 show ?thesis
    by blast
qed

text \<open>
  Claim C3. When the media engine reports an error, \<open>pipelineErrorCallback\<close> puts a
  stream-error message on the stream queue. When the control loop, in state playing,
  takes a stream-error message from that queue and the network queue has a free slot,
  the round appends exactly that one message, readdressed to the ground control common
  module and still with the stream-error code, to the network queue, requests the
  pipeline state \<open>NULL\<close> and ends in standby. With the network queue full the round waits
  in the blocking push instead.
\<close>

theorem pipeline_error_notifies_peer:
  "(wf_queue sq0 \<and> length (queue_contents sq0) < unat (size_q sq0) \<longrightarrow>
      (\<exists>sq1. pipelineErrorCallback True True sq0 = Returns sq1 \<and> wf_queue sq1 \<and>
         queue_contents sq1 = queue_contents sq0 @
           [\<lparr>address = MOD_NAME_STREAM, code = MOD_MSG_CODE_STREAM_ERROR, data = 0\<rparr>])) \<and>
   (sc_state sc = STREAM_STATE_PLAYING \<and>
    wf_queue (sc_streamMsgq sc) \<and> queue_contents (sc_streamMsgq sc) = m # rest \<and>
    code m = MOD_MSG_CODE_STREAM_ERROR \<and>
    wf_queue (networkMsgq (sc_globals sc)) \<and>
    length (queue_contents (networkMsgq (sc_globals sc)))
      < unat (size_q (networkMsgq (sc_globals sc))) \<longrightarrow>
      (\<exists>sc1. threadFuncStreamControl_round sc = Returns sc1 \<and>
         sc_state sc1 = STREAM_STATE_STANDBY \<and>
         queue_contents (networkMsgq (sc_globals sc1))
           = queue_contents (networkMsgq (sc_globals sc)) @ [m\<lparr>address := MOD_NAME_GCCOMMON\<rparr>] \<and>
         address (m\<lparr>address := MOD_NAME_GCCOMMON\<rparr>) = MOD_NAME_GCCOMMON \<and>
         code (m\<lparr>address := MOD_NAME_GCCOMMON\<rparr>) = MOD_MSG_CODE_STREAM_ERROR \<and>
         wf_queue (networkMsgq (sc_globals sc1)) \<and>
         state_requests (sc_pipeline sc1) = state_requests (sc_pipeline sc) @ [GST_STATE_NULL] \<and>
         sc_message sc1 = None \<and>
         queue_contents (sc_streamMsgq sc1) = rest)) \<and>
   (sc_state sc = STREAM_STATE_PLAYING \<and>
    wf_queue (sc_streamMsgq sc) \<and> queue_contents (sc_streamMsgq sc) = m # rest \<and>
    code m = MOD_MSG_CODE_STREAM_ERROR \<and>
    wf_queue (networkMsgq (sc_globals sc)) \<and>
    length (queue_contents (networkMsgq (sc_globals sc)))
      = unat (size_q (networkMsgq (sc_globals sc))) \<longrightarrow>
      threadFuncStreamControl_round sc = Blocks)"
proof (intro conjI impI)
  assume "wf_queue sq0 \<and> length (queue_contents sq0) < unat (size_q sq0)"
  then have room: "wf_queue sq0" "length (queue_contents sq0) < unat (size_q sq0)"
    by simp_all
  show "\<exists>sq1. pipelineErrorCallback True True sq0 = Returns sq1 \<and> wf_queue sq1 \<and>
         queue_contents sq1 = queue_contents sq0 @
           [\<lparr>address = MOD_NAME_STREAM, code = MOD_MSG_CODE_STREAM_ERROR, data = 0\<rparr>]"
    using insert_blocking_room(1,2,3) [OF room]
    by (simp add: pipelineErrorCallback_def)
next
  assume a: "sc_state sc = STREAM_STATE_PLAYING \<and>
    wf_queue (sc_streamMsgq sc) \<and> queue_contents (sc_streamMsgq sc) = m # rest \<and>
    code m = MOD_MSG_CODE_STREAM_ERROR \<and>
    wf_queue (networkMsgq (sc_globals sc)) \<and>
    length (queue_contents (networkMsgq (sc_globals sc)))
      < unat (size_q (networkMsgq (sc_globals sc)))"
  then have ev: "event_of_code (code m) = Some STREAM_EVENT_PIPE_ERROR"
    by (simp add: event_of_code_def MOD_MSG_CODE_STREAM_STOP_def MOD_MSG_CODE_STREAM_START_def
          MOD_MSG_CODE_STREAM_REQ_def MOD_MSG_CODE_STREAM_ERROR_def)
  from a have nq: "wf_queue (networkMsgq (sc_globals sc))"
    "length (queue_contents (networkMsgq (sc_globals sc)))
      < unat (size_q (networkMsgq (sc_globals sc)))"
    by simp_all
  from a have sq: "wf_queue (sc_streamMsgq sc)" "queue_contents (sc_streamMsgq sc) = m # rest"
    by simp_all
  note ins = insert_blocking_room(1,2,3) [OF nq, of "m\<lparr>address := MOD_NAME_GCCOMMON\<rparr>"]
  show "\<exists>sc1. threadFuncStreamControl_round sc = Returns sc1 \<and>
         sc_state sc1 = STREAM_STATE_STANDBY \<and>
         queue_contents (networkMsgq (sc_globals sc1))
           = queue_contents (networkMsgq (sc_globals sc)) @ [m\<lparr>address := MOD_NAME_GCCOMMON\<rparr>] \<and>
         address (m\<lparr>address := MOD_NAME_GCCOMMON\<rparr>) = MOD_NAME_GCCOMMON \<and>
         code (m\<lparr>address := MOD_NAME_GCCOMMON\<rparr>) = MOD_MSG_CODE_STREAM_ERROR \<and>
         wf_queue (networkMsgq (sc_globals sc1)) \<and>
         state_requests (sc_pipeline sc1) = state_requests (sc_pipeline sc) @ [GST_STATE_NULL] \<and>
         sc_message sc1 = None \<and>
         queue_contents (sc_streamMsgq sc1) = rest"
    using a ins remove_blocking_head(3) [OF sq]
    by (simp add: round_dispatch [OF sq ev] streamErrorHandler_def)
next
  assume a: "sc_state sc = STREAM_STATE_PLAYING \<and>
    wf_queue (sc_streamMsgq sc) \<and> queue_contents (sc_streamMsgq sc) = m # rest \<and>
    code m = MOD_MSG_CODE_STREAM_ERROR \<and>
    wf_queue (networkMsgq (sc_globals sc)) \<and>
    length (queue_contents (networkMsgq (sc_globals sc)))
      = unat (size_q (networkMsgq (sc_globals sc)))"
  then have ev: "event_of_code (code m) = Some STREAM_EVENT_PIPE_ERROR"
    by (simp add: event_of_code_def MOD_MSG_CODE_STREAM_STOP_def MOD_MSG_CODE_STREAM_START_def
          MOD_MSG_CODE_STREAM_REQ_def MOD_MSG_CODE_STREAM_ERROR_def)
  from a have nq: "wf_queue (networkMsgq (sc_globals sc))"
    "length (queue_contents (networkMsgq (sc_globals sc)))
      = unat (size_q (networkMsgq (sc_globals sc)))"
    by simp_all
  from a have sq: "wf_queue (sc_streamMsgq sc)" "queue_contents (sc_streamMsgq sc) = m # rest"
    by simp_all
  show "threadFuncStreamControl_round sc = Blocks"
    using a insert_blocking_full [OF nq, of "m\<lparr>address := MOD_NAME_GCCOMMON\<rparr>"]
    by (simp add: round_dispatch [OF sq ev] streamErrorHandler_def)
qed

theorem pipeline_error_notifies_peer_witness:
  "wf_queue \<lparr>lock = False, size_q = 2, front = 1, back_q = 0,
             messages = Some [Some \<lparr>address = 2, code = 4, data = 0\<rparr>, None]\<rparr> \<and>
   queue_contents \<lparr>lock = False, size_q = 2, front = 1, back_q = 0,
             messages = Some [Some \<lparr>address = 2, code = 4, data = 0\<rparr>, None]\<rparr>
     = [\<lparr>address = 2, code = 4, data = 0\<rparr>] \<and>
   code \<lparr>address = 2, code = 4, data = 0\<rparr> = MOD_MSG_CODE_STREAM_ERROR \<and>
   wf_queue \<lparr>lock = False, size_q = 1, front = 0, back_q = 0,
             messages = Some [None :: ModuleMessage option]\<rparr> \<and>
   (\<exists>sc1. threadFuncStreamControl_round
     \<lparr>sc_state = STREAM_STATE_PLAYING, sc_message = None,
      sc_pipeline = \<lparr>state_requests = [GST_STATE_PLAYING], sink_port = 0\<rparr>,
      sc_streamMsgq = \<lparr>lock = False, size_q = 2, front = 1, back_q = 0,
             messages = Some [Some \<lparr>address = 2, code = 4, data = 0\<rparr>, None]\<rparr>,
      sc_globals = \<lparr>networkMsgq = \<lparr>lock = False, size_q = 1, front = 0, back_q = 0,
                                     messages = Some [None]\<rparr>,
                    currentCodingFormat = 1, message_alloc_ok = True, netsink_found = True\<rparr>\<rparr>
      = Returns sc1 \<and>
      sc_state sc1 = STREAM_STATE_STANDBY \<and>
      queue_contents (networkMsgq (sc_globals sc1)) = [\<lparr>address = 3, code = 4, data = 0\<rparr>] \<and>
      state_requests (sc_pipeline sc1) = [GST_STATE_PLAYING, GST_STATE_NULL]) \<and>
   (\<exists>sq1. pipelineErrorCallback True True
       \<lparr>lock = False, size_q = 1, front = 0, back_q = 0, messages = Some [None]\<rparr> = Returns sq1 \<and>
     queue_contents sq1 = [\<lparr>address = 2, code = 4, data = 0\<rparr>])"
proof -
  have h1: "wf_queue \<lparr>lock = False, size_q = 2, front = 1, back_q = 0,
             messages = Some [Some \<lparr>address = 2, code = 4, data = 0\<rparr>, None]\<rparr>"
    by code_simp
  have h2: "queue_contents \<lparr>lock = False, size_q = 2, front = 1, back_q = 0,
             messages = Some [Some \<lparr>address = 2, code = 4, data = 0\<rparr>, None]\<rparr>
     = [\<lparr>address = 2, code = 4, data = 0\<rparr>]"
    by code_simp
  have h3: "code \<lparr>address = 2, code = 4, data = 0\<rparr> = MOD_MSG_CODE_STREAM_ERROR"
    by (simp add: MOD_MSG_CODE_STREAM_ERROR_def)
  have h4: "wf_queue \<lparr>lock = False, size_q = 1, front = 0, back_q = 0,
             messages = Some [None :: ModuleMessage option]\<rparr>"
    by code_simp
  have h5: "queue_contents \<lparr>lock = False, size_q = 1, front = 0, back_q = 0,
             messages = Some [None :: ModuleMessage option]\<rparr> = []"
    by code_simp
  note inst = pipeline_error_notifies_peer
    [where sc = "\<lparr>sc_state = STREAM_STATE_PLAYING, sc_message = None,
      sc_pipeline = \<lparr>state_requests = [GST_STATE_PLAYING], sink_port = 0\<rparr>,
      sc_streamMsgq = \<lparr>lock = False, size_q = 2, front = 1, back_q = 0,
             messages = Some [Some \<lparr>address = 2, code = 4, data = 0\<rparr>, None]\<rparr>,
      sc_globals = \<lparr>networkMsgq = \<lparr>lock = False, size_q = 1, front = 0, back_q = 0,
                                     messages = Some [None]\<rparr>,
                    currentCodingFormat = 1, message_alloc_ok = True, netsink_found = True\<rparr>\<rparr>"
      and m = "\<lparr>address = 2, code = 4, data = 0\<rparr>" and rest = "[]"
      and ?sq0.0 = "\<lparr>lock = False, size_q = 1, front = 0, back_q = 0, messages = Some [None]\<rparr>"]
  from inst h1 h2 h3 h4 h5
  have a: "\<exists>sc1. threadFuncStreamControl_round
     \<lparr>sc_state = STREAM_STATE_PLAYING, sc_message = None,
      sc_pipeline = \<lparr>state_requests = [GST_STATE_PLAYING], sink_port = 0\<rparr>,
      sc_streamMsgq = \<lparr>lock = False, size_q = 2, front = 1, back_q = 0,
             messages = Some [Some \<lparr>address = 2, code = 4, data = 0\<rparr>, None]\<rparr>,
      sc_globals = \<lparr>networkMsgq = \<lparr>lock = False, size_q = 1, front = 0, back_q = 0,
                                     messages = Some [None]\<rparr>,
                    currentCodingFormat = 1, message_alloc_ok = True, netsink_found = True\<rparr>\<rparr>
      = Returns sc1 \<and>
      sc_state sc1 = STREAM_STATE_STANDBY \<and>
      queue_contents (networkMsgq (sc_globals sc1)) = [\<lparr>address = 3, code = 4, data = 0\<rparr>] \<and>
      state_requests (sc_pipeline sc1) = [GST_STATE_PLAYING, GST_STATE_NULL]"
    by (auto simp: MOD_NAME_GCCOMMON_def MOD_MSG_CODE_STREAM_ERROR_def)
  from inst h4 h5
  have b: "\<exists>sq1. pipelineErrorCallback True True
       \<lparr>lock = False, size_q = 1, front = 0, back_q = 0, messages = Some [None]\<rparr> = Returns sq1 \<and>
     queue_contents sq1 = [\<lparr>address = 2, code = 4, data = 0\<rparr>]"
    by (auto simp: MOD_NAME_STREAM_def MOD_MSG_CODE_STREAM_ERROR_def)
  from h1 h2 h3 h4 a b show ?thesis
    by blast
qed

section \<open>Login\<close>

lemma fields_match_iff:
  assumes "length buf = 8"
  shows "(field e buf 0 = a \<and> field e buf (Suc 0) = b) \<longleftrightarrow> buf = bytes_of_fields e [a, b]"
proof
  assume "buf = bytes_of_fields e [a, b]"
  then show "field e buf 0 = a \<and> field e buf (Suc 0) = b"
    by simp
next
  assume f: "field e buf 0 = a \<and> field e buf (Suc 0) = b"
  have "buf = take 4 buf @ drop 4 buf"
    by simp
  also have "take 4 buf = bytes_of_u32 e (u32_of_bytes e (take 4 buf))"
    using assms by (simp add: bytes_of_u32_of_bytes)
  also have "drop 4 buf = bytes_of_u32 e (u32_of_bytes e (take 4 (drop 4 buf)))"
    using assms by (simp add: bytes_of_u32_of_bytes)
  finally show "buf = bytes_of_fields e [a, b]"
    using f by (simp add: field_def)
qed

lemma as_size_t_small:
  "n \<le> 8 \<Longrightarrow> as_size_t (int n) < 8 \<longleftrightarrow> n < 8"
proof -
  assume "n \<le> 8"
  then have "unat (word_of_nat n :: size_t) = n"
    by (simp add: unat_of_nat)
  then show ?thesis
    by (simp add: as_size_t_def word_less_nat_alt)
qed

lemma as_size_t_minus_one: "\<not> as_size_t (- 1) < 8"
  by (simp add: as_size_t_def)

lemma le_word_zeros: "le_word (replicate n 0) = 0"
  by (induction n) simp_all

lemma field_zeros: "field e (replicate n 0) k = 0"
  by (cases e) (simp_all add: field_def u32_of_bytes_def le_word_zeros)

text \<open>
  Claim C8. With the address resolved, the socket created and connected, and the login
  message \<open>{MOD_MSG_CODE_LOGIN, DRONE_ID}\<close> sent in full, the attempt succeeds exactly
  when the first eight bytes received within the timeout are
  \<open>{MOD_MSG_CODE_LOGIN_ACK, DRONE_ID}\<close>: it then returns 0, leaves the socket in \<open>*fd\<close>,
  closes nothing and requests keepalive. On every other reply, a short one, none, or an
  end of stream, it returns \<open>-1\<close>, closes the socket, stores \<open>SOCK_FD_INVAL\<close> in \<open>*fd\<close>
  and requests no keepalive.
\<close>

theorem login_reply_decides_connection:
  assumes "getaddrinfo_rc env = 0" and "addrinfo_found env"
    and "0 \<le> socket_ret env" and "0 \<le> connect_ret env" and "login_sent env = 8"
  shows "conn_wire (connectToGroundControl e (Some node) (Some service) (Some fd0) env)
           = bytes_of_fields e [MOD_MSG_CODE_LOGIN, DRONE_ID] \<and>
         (if take 8 (pending (login_reply env))
               = bytes_of_fields e [MOD_MSG_CODE_LOGIN_ACK, DRONE_ID]
          then connectToGroundControl e (Some node) (Some service) (Some fd0) env
                 = \<lparr>conn_retval = 0, conn_fd = Some (socket_ret env), conn_closed = [],
                    conn_wire = bytes_of_fields e [MOD_MSG_CODE_LOGIN, DRONE_ID],
                    conn_keepalive_requested = True,
                    conn_keepalive_on = (\<not> keepalive_ret env < 0)\<rparr>
          else connectToGroundControl e (Some node) (Some service) (Some fd0) env
                 = \<lparr>conn_retval = - 1, conn_fd = Some SOCK_FD_INVAL,
                    conn_closed = [socket_ret env],
                    conn_wire = bytes_of_fields e [MOD_MSG_CODE_LOGIN, DRONE_ID],
                    conn_keepalive_requested = False, conn_keepalive_on = False\<rparr>)"
proof -
  define p where "p = pending (login_reply env)"
  have sent: "\<not> (login_sent env < 0 \<or> as_size_t (login_sent env) < 8)"
    using assms(5) by (simp add: as_size_t_def)
  have wire: "take (nat (login_sent env)) (bytes_of_fields e [MOD_MSG_CODE_LOGIN, DRONE_ID])
                = bytes_of_fields e [MOD_MSG_CODE_LOGIN, DRONE_ID]"
    using assms(5) by simp
  consider (none) "p = []" | (short) "p \<noteq> []" "length p < 8" | (full) "8 \<le> length p"
    by fastforce
  then show ?thesis
  proof cases
    case none
    have ne: "take 8 p \<noteq> bytes_of_fields e [MOD_MSG_CODE_LOGIN_ACK, DRONE_ID]"
      using none by (auto dest: arg_cong [where f = length])
    have "field e (replicate 8 0) 0 \<noteq> MOD_MSG_CODE_LOGIN_ACK"
      by (simp add: field_zeros MOD_MSG_CODE_LOGIN_ACK_def)
    then show ?thesis
      using assms(1-4) sent wire none ne
      by (simp add: connectToGroundControl_def recvTimeout_def fill_def Let_def
            as_size_t_def p_def [symmetric])
  next
    case short
    have ne: "take 8 p \<noteq> bytes_of_fields e [MOD_MSG_CODE_LOGIN_ACK, DRONE_ID]"
      using short by (auto dest: arg_cong [where f = length])
    have "as_size_t (int (length (take 8 p))) < 8"
      using short by (simp add: as_size_t_small)
    then show ?thesis
      using assms(1-4) sent wire short ne
      by (simp add: connectToGroundControl_def recvTimeout_def Let_def p_def [symmetric])
  next
    case full
    then have pne: "p \<noteq> []" by auto
    have len: "length (take 8 p) = 8"
      using full by simp
    have big: "\<not> as_size_t (int (length (take 8 p))) < 8"
      using len by (simp add: as_size_t_def)
    have filled: "fill (replicate 8 0) (take 8 p) = take 8 p"
      using len by (simp add: fill_def)
    have rv: "recvTimeout (login_reply env) 8
                = (8, take 8 p, (login_reply env)\<lparr>pending := drop 8 p\<rparr>)"
      using pne full by (simp add: recvTimeout_def p_def)
    have eq: "connectToGroundControl e (Some node) (Some service) (Some fd0) env
          = (if field e (take 8 p) 0 \<noteq> MOD_MSG_CODE_LOGIN_ACK \<or>
                field e (take 8 p) (Suc 0) \<noteq> DRONE_ID
             then \<lparr>conn_retval = - 1, conn_fd = Some SOCK_FD_INVAL,
                    conn_closed = [socket_ret env],
                    conn_wire = bytes_of_fields e [MOD_MSG_CODE_LOGIN, DRONE_ID],
                    conn_keepalive_requested = False, conn_keepalive_on = False\<rparr>
             else \<lparr>conn_retval = 0, conn_fd = Some (socket_ret env), conn_closed = [],
                    conn_wire = bytes_of_fields e [MOD_MSG_CODE_LOGIN, DRONE_ID],
                    conn_keepalive_requested = True,
                    conn_keepalive_on = (\<not> keepalive_ret env < 0)\<rparr>)"
      using assms(1-4) sent wire
      by (simp add: connectToGroundControl_def Let_def rv filled as_size_t_def
            del: bytes_of_fields_simps)
    have iff: "(field e (take 8 p) 0 = MOD_MSG_CODE_LOGIN_ACK \<and>
                field e (take 8 p) (Suc 0) = DRONE_ID)
               \<longleftrightarrow> take 8 p = bytes_of_fields e [MOD_MSG_CODE_LOGIN_ACK, DRONE_ID]"
      using len by (rule fields_match_iff)
    show ?thesis
    proof (cases "take 8 p = bytes_of_fields e [MOD_MSG_CODE_LOGIN_ACK, DRONE_ID]")
      case True
      with iff have "field e (take 8 p) 0 = MOD_MSG_CODE_LOGIN_ACK"
        "field e (take 8 p) (Suc 0) = DRONE_ID"
        by blast+
      with True show ?thesis
        unfolding p_def [symmetric] by (simp add: eq del: bytes_of_fields_simps)
    next
      case False
      with iff have "field e (take 8 p) 0 \<noteq> MOD_MSG_CODE_LOGIN_ACK \<or>
                field e (take 8 p) (Suc 0) \<noteq> DRONE_ID"
        by blast
      with False show ?thesis
        unfolding p_def [symmetric] by (simp add: eq del: bytes_of_fields_simps)
    qed
  qed
qed

theorem login_reply_decides_connection_witness:
  "getaddrinfo_rc \<lparr>getaddrinfo_rc = 0, addrinfo_found = True, socket_ret = 5, connect_ret = 0,
      login_sent = 8, login_reply = \<lparr>pending = [8, 0, 0, 0, 0, 0, 0, 0], peer_closed = False\<rparr>,
      keepalive_ret = 0\<rparr> = 0 \<and>
   connectToGroundControl LittleEndian (Some ''gc'') (Some ''17010'') (Some 0)
     \<lparr>getaddrinfo_rc = 0, addrinfo_found = True, socket_ret = 5, connect_ret = 0,
      login_sent = 8, login_reply = \<lparr>pending = [8, 0, 0, 0, 0, 0, 0, 0], peer_closed = False\<rparr>,
      keepalive_ret = 0\<rparr>
     = \<lparr>conn_retval = - 1, conn_fd = Some (- 1), conn_closed = [5],
        conn_wire = [1, 0, 0, 0, 12, 0, 0, 0],
        conn_keepalive_requested = False, conn_keepalive_on = False\<rparr> \<and>
   connectToGroundControl LittleEndian (Some ''gc'') (Some ''17010'') (Some 0)
     \<lparr>getaddrinfo_rc = 0, addrinfo_found = True, socket_ret = 5, connect_ret = 0,
      login_sent = 8, login_reply = \<lparr>pending = [2, 0, 0, 0, 12, 0, 0, 0], peer_closed = False\<rparr>,
      keepalive_ret = 0\<rparr>
     = \<lparr>conn_retval = 0, conn_fd = Some 5, conn_closed = [],
        conn_wire = [1, 0, 0, 0, 12, 0, 0, 0],
        conn_keepalive_requested = True, conn_keepalive_on = True\<rparr>"
proof -
  have login: "bytes_of_fields LittleEndian [MOD_MSG_CODE_LOGIN, DRONE_ID] = [1, 0, 0, 0, 12, 0, 0, 0]"
    by code_simp
  have ack: "bytes_of_fields LittleEndian [MOD_MSG_CODE_LOGIN_ACK, DRONE_ID] = [2, 0, 0, 0, 12, 0, 0, 0]"
    by code_simp
  have nack: "take 8 [8, 0, 0, 0, 0, 0, 0, 0 :: byte]
                \<noteq> bytes_of_fields LittleEndian [MOD_MSG_CODE_LOGIN_ACK, DRONE_ID]"
    unfolding ack by simp
  have yes: "take 8 [2, 0, 0, 0, 12, 0, 0, 0 :: byte]
                = bytes_of_fields LittleEndian [MOD_MSG_CODE_LOGIN_ACK, DRONE_ID]"
    unfolding ack by simp
  have a: "connectToGroundControl LittleEndian (Some ''gc'') (Some ''17010'') (Some 0)
     \<lparr>getaddrinfo_rc = 0, addrinfo_found = True, socket_ret = 5, connect_ret = 0,
      login_sent = 8, login_reply = \<lparr>pending = [8, 0, 0, 0, 0, 0, 0, 0], peer_closed = False\<rparr>,
      keepalive_ret = 0\<rparr>
     = \<lparr>conn_retval = - 1, conn_fd = Some (- 1), conn_closed = [5],
        conn_wire = [1, 0, 0, 0, 12, 0, 0, 0],
        conn_keepalive_requested = False, conn_keepalive_on = False\<rparr>"
    using login_reply_decides_connection
      [where env = "\<lparr>getaddrinfo_rc = 0, addrinfo_found = True, socket_ret = 5, connect_ret = 0,
          login_sent = 8,
          login_reply = \<lparr>pending = [8, 0, 0, 0, 0, 0, 0, 0], peer_closed = False\<rparr>,
          keepalive_ret = 0\<rparr>" and e = LittleEndian and node = "''gc''"
          and service = "''17010''" and ?fd0.0 = 0] nack
    by (simp add: login SOCK_FD_INVAL_def del: bytes_of_fields_simps)
  have b: "connectToGroundControl LittleEndian (Some ''gc'') (Some ''17010'') (Some 0)
     \<lparr>getaddrinfo_rc = 0, addrinfo_found = True, socket_ret = 5, connect_ret = 0,
      login_sent = 8, login_reply = \<lparr>pending = [2, 0, 0, 0, 12, 0, 0, 0], peer_closed = False\<rparr>,
      keepalive_ret = 0\<rparr>
     = \<lparr>conn_retval = 0, conn_fd = Some 5, conn_closed = [],
        conn_wire = [1, 0, 0, 0, 12, 0, 0, 0],
        conn_keepalive_requested = True, conn_keepalive_on = True\<rparr>"
    using login_reply_decides_connection
      [where env = "\<lparr>getaddrinfo_rc = 0, addrinfo_found = True, socket_ret = 5, connect_ret = 0,
          login_sent = 8,
          login_reply = \<lparr>pending = [2, 0, 0, 0, 12, 0, 0, 0], peer_closed = False\<rparr>,
          keepalive_ret = 0\<rparr>" and e = LittleEndian and node = "''gc''"
          and service = "''17010''" and ?fd0.0 = 0] yes
    by (simp add: login del: bytes_of_fields_simps)
  from a b show ?thesis
    by simp
qed

text \<open>
  Claim C1, as the code behaves. A login message received in full whose code is not
  \<open>MOD_MSG_CODE_LOGIN\<close> is answered with \<open>{MOD_MSG_CODE_LOGIN_NACK, 0}\<close>, but when that
  reply is sent \<open>authDrone\<close> returns 0, not a negative value: the service thread takes
  the drone for authenticated, keeps the socket open and enters the communication loop.
  Only a failing \<open>send\<close> makes \<open>authDrone\<close> return \<open>-1\<close> on this path.
\<close>

theorem nack_does_not_reject:
  assumes "0 \<le> serviceSocket" and "c \<noteq> MOD_MSG_CODE_LOGIN" and "0 \<le> sent"
  shows "authDrone e serviceSocket (Some d)
           \<lparr>pending = bytes_of_fields e [c, i] @ later, peer_closed = cl\<rparr> sent
         = (0, Some d, take (nat sent) (bytes_of_fields e [MOD_MSG_CODE_LOGIN_NACK, 0]),
            \<lparr>pending = later, peer_closed = cl\<rparr>) \<and>
         threadFuncDroneService_accepted e serviceSocket d
           \<lparr>pending = bytes_of_fields e [c, i] @ later, peer_closed = cl\<rparr> sent
         = \<lparr>loop_entered = True, service_closed = False,
            service_reply = take (nat sent) (bytes_of_fields e [MOD_MSG_CODE_LOGIN_NACK, 0]),
            service_droneID = d\<rparr>"
proof -
  have big: "\<not> as_size_t 8 < 8"
    by (simp add: as_size_t_def)
  have auth: "authDrone e serviceSocket (Some d)
           \<lparr>pending = bytes_of_fields e [c, i] @ later, peer_closed = cl\<rparr> sent
         = (0, Some d, take (nat sent) (bytes_of_fields e [MOD_MSG_CODE_LOGIN_NACK, 0]),
            \<lparr>pending = later, peer_closed = cl\<rparr>)"
    using assms big
    by (simp add: authDrone_def recvTimeout_def fill_def Let_def
          length_0_conv [symmetric] del: length_0_conv)
  then show ?thesis
    by (simp add: threadFuncDroneService_accepted_def del: bytes_of_fields_simps)
qed

theorem nack_does_not_reject_witness:
  "(0::int) \<le> 5 \<and> MOD_MSG_CODE_STREAM_REQ \<noteq> MOD_MSG_CODE_LOGIN \<and> (0::int) \<le> 8 \<and>
   authDrone LittleEndian 5 (Some 0)
     \<lparr>pending = [3, 0, 0, 0, 12, 0, 0, 0], peer_closed = False\<rparr> 8
     = (0, Some 0, [8, 0, 0, 0, 0, 0, 0, 0], \<lparr>pending = [], peer_closed = False\<rparr>) \<and>
   threadFuncDroneService_accepted LittleEndian 5 0
     \<lparr>pending = [3, 0, 0, 0, 12, 0, 0, 0], peer_closed = False\<rparr> 8
     = \<lparr>loop_entered = True, service_closed = False,
        service_reply = [8, 0, 0, 0, 0, 0, 0, 0], service_droneID = 0\<rparr>"
proof -
  have h1: "(0::int) \<le> 5" and h3: "(0::int) \<le> 8"
    by simp_all
  have h2: "MOD_MSG_CODE_STREAM_REQ \<noteq> MOD_MSG_CODE_LOGIN"
    by (simp add: MOD_MSG_CODE_STREAM_REQ_def MOD_MSG_CODE_LOGIN_def)
  have req: "bytes_of_fields LittleEndian [MOD_MSG_CODE_STREAM_REQ, 12] @ []
               = [3, 0, 0, 0, 12, 0, 0, 0]"
    by code_simp
  have nack: "take (nat 8) (bytes_of_fields LittleEndian [MOD_MSG_CODE_LOGIN_NACK, 0])
               = [8, 0, 0, 0, 0, 0, 0, 0]"
    by code_simp
  from nack_does_not_reject [OF h1 h2 h3, of LittleEndian 0 12 "[]" False, unfolded req nack]
    h1 h2 h3
  show ?thesis
    by blast
qed

end
